theory Spec2Isabelle
  imports Complex_Main "HOL-Library.Sublist"
begin

section \<open>The recursive book summarizer (summarize.py)\<close>

text \<open>
  The program reduces a long text to a summary of bounded size by calling a language
  model, splitting texts that do not fit the model's context and summarizing the
  joined summaries again. This theory embeds \<^verbatim>\<open>summarize.py\<close>: the retry loop of
  \<^verbatim>\<open>gpt_summarize\<close>, the budget computation, the three-way recursion of
  \<^verbatim>\<open>summarize\<close> and \<^verbatim>\<open>synthesize_summaries\<close>. Python's unbounded integers are
  \<open>int\<close>, token counts are \<open>nat\<close>, strings are \<open>string\<close>, exceptions are values
  of a sum type, and a value that may be \<^verbatim>\<open>None\<close> is an \<open>option\<close>. Python's floats are
  the real numbers they denote, with every operation rounded as binary64 arithmetic
  rounds it.
\<close>

subsection \<open>Data\<close>

text \<open>The frozen dataclass \<^verbatim>\<open>SummarizationParameters\<close>.\<close>

record SummarizationParameters =
  target_summary_size :: int
  summary_input_size :: int

text \<open>A chat message: a dictionary with the keys \<^verbatim>\<open>role\<close> and \<^verbatim>\<open>content\<close>.\<close>

record message =
  role :: string
  content :: string

text \<open>
  What the program reads of a completion: \<^verbatim>\<open>result.choices\<close>, each choice given by its
  \<^verbatim>\<open>message.content\<close>, which the library types as an optional string, and
  \<^verbatim>\<open>result.usage\<close>, which is optional too and is given by its \<^verbatim>\<open>total_tokens\<close>.
\<close>

datatype completion = ChatCompletion (choices: "string option list") (usage: "int option")

text \<open>
  Exceptions. The \<^verbatim>\<open>except\<close> clause of \<^verbatim>\<open>gpt_summarize\<close> names three classes of the
  provider's library; every other exception passes through it. An exception object may
  or may not carry the attribute \<^verbatim>\<open>should_retry\<close> (\<open>None\<close>: no such attribute).
  \<^verbatim>\<open>AttributeError\<close>, \<^verbatim>\<open>IndexError\<close> and \<^verbatim>\<open>TypeError\<close> are what Python raises on
  \<^verbatim>\<open>None.total_tokens\<close>, on \<^verbatim>\<open>[][0]\<close> and on \<^verbatim>\<open>"[[[" + None\<close>.
\<close>

datatype exception_class =
  APIConnectionError | APIError | RateLimitError | AssertionError
| AttributeError | IndexError | TypeError | OtherException

datatype exception = Exception (exc_class: exception_class) (should_retry: "bool option")

definition caught :: "exception \<Rightarrow> bool" where
  "caught e = (exc_class e = APIConnectionError \<or> exc_class e = APIError
     \<or> exc_class e = RateLimitError)"

text \<open>
  A transient provider error: one the \<^verbatim>\<open>except\<close> clause catches and that is not flagged
  \<^verbatim>\<open>should_retry = False\<close>.
\<close>

definition transient :: "exception \<Rightarrow> bool" where
  "transient e = (caught e \<and> should_retry e \<noteq> Some False)"

subsection \<open>The collaborators outside the file\<close>

text \<open>
  The program's collaborators are parameters of the model:
  \<^item> \<open>prompt_messages\<close> is \<^verbatim>\<open>utilities.summarization_prompt_messages(text, size)\<close>;
  \<^item> \<open>message_tokens\<close> is \<^verbatim>\<open>utilities.num_tokens_from_messages(messages, model)\<close>;
  \<^item> \<open>text_tokens\<close> is \<^verbatim>\<open>len(enc.encode(text))\<close>, the tokenizer's count;
  \<^item> \<open>sections\<close> is \<^verbatim>\<open>utilities.split_text_into_sections(text, max, point, model)\<close>;
  \<^item> \<open>create i\<close> is the outcome of the \<open>i\<close>-th invocation (counted from 0) of
    \<^verbatim>\<open>openai.chat.completions.create(model, messages)\<close>: a completion or a raised
    exception. The index lets the provider answer the same request differently each time;
  \<^item> \<open>random_draw i\<close> is the value of the \<open>i\<close>-th call of \<^verbatim>\<open>random.random()\<close>, a
    float.
\<close>

record externals =
  prompt_messages :: "string \<Rightarrow> int \<Rightarrow> message list"
  message_tokens :: "message list \<Rightarrow> string \<Rightarrow> nat"
  text_tokens :: "string \<Rightarrow> nat"
  sections :: "string \<Rightarrow> int \<Rightarrow> string \<Rightarrow> string \<Rightarrow> string list"
  create :: "nat \<Rightarrow> string \<Rightarrow> message list \<Rightarrow> exception + completion"
  random_draw :: "nat \<Rightarrow> real"

subsection \<open>The program state\<close>

text \<open>
  The key of a memoized call: the function and its arguments.
\<close>

datatype cache_key =
  SummarizeKey string SummarizationParameters string string
| SynthesizeKey "string list" string

text \<open>
  \<open>actual_tokens\<close> is the module's global counter. The store behind
  \<^verbatim>\<open>memoize_to_file\<close> is keyed by function and arguments; the model keeps the entries
  of each function in a field of their own: \<open>cache\<close> has the entries of \<^verbatim>\<open>summarize\<close>,
  whose values are texts, and \<open>synthesis_cache\<close> those of \<^verbatim>\<open>synthesize_summaries\<close>, whose
  values are texts or \<^verbatim>\<open>None\<close>. Two more fields record what the program does to the outside:
  \<open>api_calls\<close> counts the invocations of the model made so far, \<open>sleeps\<close> lists the
  durations passed to \<^verbatim>\<open>time.sleep\<close>, oldest first. Every sleep follows exactly one
  draw of \<^verbatim>\<open>random.random()\<close>, so the length of \<open>sleeps\<close> is also the number of draws.
\<close>

record state =
  actual_tokens :: int
  cache :: "cache_key \<rightharpoonup> string"
  synthesis_cache :: "cache_key \<rightharpoonup> string option"
  api_calls :: nat
  sleeps :: "real list"

text \<open>
  A computation that may raise and may fail to return: \<open>None\<close> stands for a run that
  does not come back, \<open>Some (Inl e, s)\<close> for an exception \<open>e\<close> raised in state \<open>s\<close>.
\<close>

type_synonym 'a outcome = "((exception + 'a) \<times> state) option"

subsection \<open>Constants of the module\<close>

definition MAX_ATTEMPTS :: nat where
  "MAX_ATTEMPTS = 3"

definition model_name :: string where
  "model_name = ''gpt-3.5-turbo-1106''"

definition newline :: string where
  "newline = [CHR 0x0A]"

subsection \<open>Floating-point arithmetic\<close>

text \<open>
  A Python float is a binary64 number. \<open>fl x\<close> is the binary64 number nearest to the
  real number \<open>x\<close>, the even one of two that are equally near: with
  \<open>2\<^sup>e \<le> \<bar>x\<bar> < 2\<^sup>e\<^sup>+\<^sup>1\<close> the binary64 numbers around \<open>x\<close> are the multiples of
  \<open>2\<^sup>e\<^sup>-\<^sup>5\<^sup>2\<close>. Every operation on floats yields \<open>fl\<close> of the exact result. The
  range of the exponent is not modelled: the numbers of the program lie between
  \<open>2\<^sup>-\<^sup>5\<^sup>3\<close> and 20, far from overflow and underflow.
\<close>

definition round_half_even :: "real \<Rightarrow> int" where
  "round_half_even x =
     (if x - of_int \<lfloor>x\<rfloor> < 1 / 2 then \<lfloor>x\<rfloor>
      else if 1 / 2 < x - of_int \<lfloor>x\<rfloor> then \<lfloor>x\<rfloor> + 1
      else if even \<lfloor>x\<rfloor> then \<lfloor>x\<rfloor> else \<lfloor>x\<rfloor> + 1)"

definition fl :: "real \<Rightarrow> real" where
  "fl x =
     (if x = 0 then 0
      else sgn x * of_int (round_half_even (\<bar>x\<bar> / 2 powr (of_int \<lfloor>log 2 \<bar>x\<bar>\<rfloor> - 52)))
             * 2 powr (of_int \<lfloor>log 2 \<bar>x\<bar>\<rfloor> - 52))"

text \<open>
  The duration of the sleep after the failed attempt number \<open>tries\<close>, computed from the
  draw \<open>u\<close> as lines 50 to 56 compute it: \<^verbatim>\<open>u * 4.0 + 1.0\<close>, times \<^verbatim>\<open>tries\<close>, times
  \<^verbatim>\<open>tries\<close> again, the integer converted to a float each time.
\<close>

definition backoff :: "real \<Rightarrow> nat \<Rightarrow> real" where
  "backoff u tries =
     (let random_wait = fl (fl (u * 4) + 1);
          random_wait2 = fl (random_wait * fl (real tries))
      in fl (random_wait2 * fl (real tries)))"

subsection \<open>gpt_summarize\<close>

text \<open>
  One pass of the \<^verbatim>\<open>while True\<close> loop, entered with the current value of \<^verbatim>\<open>tries\<close>.
  The loop ends by \<^verbatim>\<open>return\<close> or \<^verbatim>\<open>raise\<close>; it goes round again only after a caught
  exception with \<^verbatim>\<open>tries < MAX_ATTEMPTS\<close>, which bounds it. Line 39 adds the usage to
  the counter before line 40 reads the reply, so an exception of line 40 leaves the
  counter changed; neither exception of these lines is one the \<^verbatim>\<open>except\<close> clause names.
\<close>

function gpt_summarize_loop ::
  "externals \<Rightarrow> string \<Rightarrow> int \<Rightarrow> nat \<Rightarrow> state \<Rightarrow> (exception + string) \<times> state" where
  "gpt_summarize_loop X txt tss tries s =
     (let tries1 = tries + 1;
          s1 = s\<lparr>api_calls := api_calls s + 1\<rparr>
      in case create X (api_calls s) ''gpt-3.5-turbo-1106'' (prompt_messages X txt tss) of
           Inr result \<Rightarrow>
             (case usage result of
                None \<Rightarrow> (Inl (Exception AttributeError None), s1)
              | Some used \<Rightarrow>
                  (let s2 = s1\<lparr>actual_tokens := actual_tokens s1 + used\<rparr>
                   in case choices result of
                        [] \<Rightarrow> (Inl (Exception IndexError None), s2)
                      | None # _ \<Rightarrow> (Inl (Exception TypeError None), s2)
                      | Some reply # _ \<Rightarrow> (Inr (''[[['' @ reply @ '']]]''), s2)))
         | Inl e \<Rightarrow>
             if \<not> caught e then (Inl e, s1)
             else if MAX_ATTEMPTS \<le> tries1 then (Inl e, s1)
             else if should_retry e = Some False then (Inl e, s1)
             else gpt_summarize_loop X txt tss tries1
                    (s1\<lparr>sleeps := sleeps s1
                         @ [backoff (random_draw X (length (sleeps s1))) tries1]\<rparr>))"
  by pat_completeness auto
termination
  by (relation "measure (\<lambda>(X, txt, tss, tries, s). MAX_ATTEMPTS - tries)")
    (auto simp: MAX_ATTEMPTS_def)

declare gpt_summarize_loop.simps [simp del]

definition gpt_summarize :: "externals \<Rightarrow> string \<Rightarrow> int \<Rightarrow> state \<Rightarrow> (exception + string) \<times> state" where
  "gpt_summarize X txt tss s = gpt_summarize_loop X txt tss 0 s"

subsection \<open>summarization_token_parameters\<close>

definition summarization_token_parameters ::
  "externals \<Rightarrow> int \<Rightarrow> int \<Rightarrow> exception + SummarizationParameters" where
  "summarization_token_parameters X tss model_context_size =
     (let base_prompt_size = int (message_tokens X (prompt_messages X [] tss) model_name);
          sis = model_context_size - (base_prompt_size + tss)
      in Inr \<lparr>target_summary_size = tss, summary_input_size = sis\<rparr>)"

subsection \<open>The memoization decorator\<close>

text \<open>
  Modelled from the spec: \<^verbatim>\<open>memoize_to_file\<close>, the decorator of the \<^verbatim>\<open>utilities\<close>
  module, which is not among the source files. The spec: a cache entry is keyed by the
  function and its arguments and its value is what the call returned; the lookup happens
  before anything else; the cache is changed only by a call that completes with a
  result, and entries are never removed. \<open>lookup\<close> reads the entry of the call and
  \<open>store\<close> writes it.
\<close>

definition memoize_to_file ::
  "(state \<Rightarrow> 'v option) \<Rightarrow> ('v \<Rightarrow> state \<Rightarrow> state) \<Rightarrow> (state \<Rightarrow> 'v outcome) \<Rightarrow> state \<Rightarrow> 'v outcome" where
  "memoize_to_file lookup store f s =
     (case lookup s of
        Some v \<Rightarrow> Some (Inr v, s)
      | None \<Rightarrow>
          (case f s of
             None \<Rightarrow> None
           | Some (Inl e, s1) \<Rightarrow> Some (Inl e, s1)
           | Some (Inr v, s1) \<Rightarrow> Some (Inr v, store v s1)))"

text \<open>The entry of a call of \<^verbatim>\<open>summarize\<close> and of a call of \<^verbatim>\<open>synthesize_summaries\<close>.\<close>

definition summarize_entry :: "cache_key \<Rightarrow> state \<Rightarrow> string option" where
  "summarize_entry k s = cache s k"

definition store_summarize_entry :: "cache_key \<Rightarrow> string \<Rightarrow> state \<Rightarrow> state" where
  "store_summarize_entry k v s = s\<lparr>cache := (cache s)(k \<mapsto> v)\<rparr>"

definition synthesis_entry :: "cache_key \<Rightarrow> state \<Rightarrow> string option option" where
  "synthesis_entry k s = synthesis_cache s k"

definition store_synthesis_entry :: "cache_key \<Rightarrow> string option \<Rightarrow> state \<Rightarrow> state" where
  "store_synthesis_entry k v s = s\<lparr>synthesis_cache := (synthesis_cache s)(k \<mapsto> v)\<rparr>"

subsection \<open>summarize\<close>

text \<open>Python's \<^verbatim>\<open>sep.join(xs)\<close>.\<close>

fun join :: "string \<Rightarrow> string list \<Rightarrow> string" where
  "join sep [] = []"
| "join sep [x] = x"
| "join sep (x # y # ys) = x @ sep @ join sep (y # ys)"

text \<open>
  The list comprehension \<^verbatim>\<open>[summarize(x, ...) for x in split_input]\<close>: the elements
  in order, each in the state its predecessor left; the first exception ends it.
\<close>

fun summarize_each :: "(string \<Rightarrow> state \<Rightarrow> string outcome) \<Rightarrow> string list \<Rightarrow> state \<Rightarrow> string list outcome" where
  "summarize_each f [] s = Some (Inr [], s)"
| "summarize_each f (x # xs) s =
     (case f x s of
        None \<Rightarrow> None
      | Some (Inl e, s1) \<Rightarrow> Some (Inl e, s1)
      | Some (Inr y, s1) \<Rightarrow>
          (case summarize_each f xs s1 of
             None \<Rightarrow> None
           | Some (Inl e, s2) \<Rightarrow> Some (Inl e, s2)
           | Some (Inr ys, s2) \<Rightarrow> Some (Inr (y # ys), s2)))"

text \<open>
  The body of \<^verbatim>\<open>summarize\<close>. The name \<^verbatim>\<open>summarize\<close> inside the body is the decorated
  function, passed here as \<open>self\<close>. The console output is left out.
\<close>

definition summarize_body ::
  "externals \<Rightarrow> (string \<Rightarrow> SummarizationParameters \<Rightarrow> string \<Rightarrow> string \<Rightarrow> state \<Rightarrow> string outcome)
     \<Rightarrow> string \<Rightarrow> SummarizationParameters \<Rightarrow> string \<Rightarrow> string \<Rightarrow> state \<Rightarrow> string outcome" where
  "summarize_body X self txt token_quantities division_point model s =
     (if int (text_tokens X txt) \<le> target_summary_size token_quantities then Some (Inr txt, s)
      else if int (text_tokens X txt) \<le> summary_input_size token_quantities then
        Some (gpt_summarize X txt (target_summary_size token_quantities) s)
      else
        (let split_input =
               sections X txt (summary_input_size token_quantities) division_point model
         in case summarize_each (\<lambda>x. self x token_quantities division_point model) split_input s of
              None \<Rightarrow> None
            | Some (Inl e, s1) \<Rightarrow> Some (Inl e, s1)
            | Some (Inr summaries, s1) \<Rightarrow>
                self (join (newline @ newline) summaries) token_quantities division_point model s1))"

text \<open>
  The decorated, recursive function. The first argument bounds the depth of the
  recursion: \<open>summarize n\<close> is \<open>None\<close> when the call needs more than \<open>n\<close> nested
  calls, so a call returns or raises exactly when some \<open>n\<close> gives \<open>Some\<close>.
\<close>

primrec summarize ::
  "nat \<Rightarrow> externals \<Rightarrow> string \<Rightarrow> SummarizationParameters \<Rightarrow> string \<Rightarrow> string \<Rightarrow> state \<Rightarrow> string outcome" where
  "summarize 0 X = (\<lambda>txt token_quantities division_point model s. None)"
| "summarize (Suc n) X = (\<lambda>txt token_quantities division_point model.
     memoize_to_file (summarize_entry (SummarizeKey txt token_quantities division_point model))
       (store_summarize_entry (SummarizeKey txt token_quantities division_point model))
       (summarize_body X (summarize n X) txt token_quantities division_point model))"

subsection \<open>synthesize_summaries\<close>

text \<open>Python's \<^verbatim>\<open>str(n)\<close> for a natural number.\<close>

fun str_nat :: "nat \<Rightarrow> string" where
  "str_nat n = (if n < 10 then [''0123456789'' ! n]
     else str_nat (n div 10) @ [''0123456789'' ! (n mod 10)])"

declare str_nat.simps [simp del]

text \<open>
  Python's \<^verbatim>\<open>s.strip()\<close>: the characters for which \<^verbatim>\<open>str.isspace\<close> holds, among the
  first 256 code points, are removed at both ends.
\<close>

definition is_space :: "char \<Rightarrow> bool" where
  "is_space c = (c \<in> set [CHR 0x09, CHR 0x0A, CHR 0x0B, CHR 0x0C, CHR 0x0D,
     CHR 0x1C, CHR 0x1D, CHR 0x1E, CHR 0x1F, CHR 0x20, CHR 0x85, CHR 0xA0])"

definition strip :: "string \<Rightarrow> string" where
  "strip s = rev (dropWhile is_space (rev (dropWhile is_space s)))"

text \<open>
  The loop over \<^verbatim>\<open>enumerate(summaries)\<close> that builds \<^verbatim>\<open>summaries_joined\<close>; \<open>i\<close> is
  the index of the first summary of the list.
\<close>

fun summaries_joined :: "nat \<Rightarrow> string list \<Rightarrow> string" where
  "summaries_joined i [] = []"
| "summaries_joined i (summary # rest) =
     ''Summary '' @ str_nat (i + 1) @ '': '' @ summary @ newline @ newline
       @ summaries_joined (i + 1) rest"

definition synthesis_messages :: "string list \<Rightarrow> message list" where
  "synthesis_messages summaries =
     [\<lparr>role = ''user'',
       content = strip (newline
         @ ''A less powerful GPT model generated '' @ str_nat (length summaries)
         @ '' summaries of a book.'' @ newline @ newline
         @ ''Because of the way that the summaries are generated, they may not be perfect. Please review them''
         @ newline
         @ ''and synthesize them into a single more detailed summary that you think is best.''
         @ newline @ newline
         @ ''The summaries are as follows: '' @ summaries_joined 0 summaries @ newline)\<rparr>]"

text \<open>
  The body: the assertion, then one invocation of the model, with no retry. The value
  returned is the content of the first choice, a text or \<^verbatim>\<open>None\<close>.
\<close>

definition synthesize_summaries_body :: "externals \<Rightarrow> string list \<Rightarrow> string \<Rightarrow> state \<Rightarrow> string option outcome" where
  "synthesize_summaries_body X summaries model s =
     (let messages = synthesis_messages summaries
      in if \<not> message_tokens X messages model_name \<le> 8192
         then Some (Inl (Exception AssertionError None), s)
         else
           (case create X (api_calls s) model messages of
              Inl e \<Rightarrow> Some (Inl e, s\<lparr>api_calls := api_calls s + 1\<rparr>)
            | Inr result \<Rightarrow>
                (case choices result of
                   [] \<Rightarrow> Some (Inl (Exception IndexError None), s\<lparr>api_calls := api_calls s + 1\<rparr>)
                 | reply # _ \<Rightarrow> Some (Inr reply, s\<lparr>api_calls := api_calls s + 1\<rparr>))))"

definition synthesize_summaries :: "externals \<Rightarrow> string list \<Rightarrow> string \<Rightarrow> state \<Rightarrow> string option outcome" where
  "synthesize_summaries X summaries model =
     memoize_to_file (synthesis_entry (SynthesizeKey summaries model))
       (store_synthesis_entry (SynthesizeKey summaries model))
       (synthesize_summaries_body X summaries model)"

subsection \<open>The section splitter\<close>

text \<open>
  Modelled from the spec: \<^verbatim>\<open>split_text_into_sections\<close> of the \<^verbatim>\<open>utilities\<close> module,
  which is not among the source files. The spec: the text is divided into contiguous
  sections, each within the token budget; a section ends only where the boundary occurs
  (it stays at the end of the section it closes); where no boundary lies within the
  budget the splitter cuts at the budget instead, and it always makes progress.
  \<open>tok\<close> is the tokenizer's count.

  \<open>boundary_cuts\<close> lists the lengths \<open>k\<close> of the prefixes that end with the boundary or
  are the whole text and fit the budget, \<open>hard_cuts\<close> the lengths of all prefixes that
  fit; the longest is taken, and one character when nothing fits.
\<close>

definition boundary_cuts :: "(string \<Rightarrow> nat) \<Rightarrow> int \<Rightarrow> string \<Rightarrow> string \<Rightarrow> nat list" where
  "boundary_cuts tok max_tokens point txt =
     filter (\<lambda>k. (k = length txt \<or> (point \<noteq> [] \<and> suffix point (take k txt)))
                \<and> int (tok (take k txt)) \<le> max_tokens) [1..<Suc (length txt)]"

definition hard_cuts :: "(string \<Rightarrow> nat) \<Rightarrow> int \<Rightarrow> string \<Rightarrow> nat list" where
  "hard_cuts tok max_tokens txt =
     filter (\<lambda>k. int (tok (take k txt)) \<le> max_tokens) [1..<Suc (length txt)]"

definition cut_length :: "(string \<Rightarrow> nat) \<Rightarrow> int \<Rightarrow> string \<Rightarrow> string \<Rightarrow> nat" where
  "cut_length tok max_tokens point txt =
     (if boundary_cuts tok max_tokens point txt \<noteq> [] then last (boundary_cuts tok max_tokens point txt)
      else if hard_cuts tok max_tokens txt \<noteq> [] then last (hard_cuts tok max_tokens txt)
      else 1)"

function split_text_into_sections ::
  "(string \<Rightarrow> nat) \<Rightarrow> string \<Rightarrow> int \<Rightarrow> string \<Rightarrow> string \<Rightarrow> string list" where
  "split_text_into_sections tok txt max_tokens point model =
     (if txt = [] then []
      else take (cut_length tok max_tokens point txt) txt
           # split_text_into_sections tok (drop (cut_length tok max_tokens point txt) txt)
               max_tokens point model)"
  by pat_completeness auto
termination
proof (relation "measure (\<lambda>(tok, txt, max_tokens, point, model). length txt)")
  show "wf (measure (\<lambda>(tok, txt, max_tokens, point, model). length txt))"
    by simp
next
  fix tok :: "string \<Rightarrow> nat" and t :: string and max_tokens :: int
    and point model :: string
  assume "t \<noteq> []"
  have b: "0 < k" if "k \<in> set (boundary_cuts tok max_tokens point t)" for k
    using that by (auto simp: boundary_cuts_def)
  have h: "0 < k" if "k \<in> set (hard_cuts tok max_tokens t)" for k
    using that by (auto simp: hard_cuts_def)
  have "0 < cut_length tok max_tokens point t"
  proof (cases "boundary_cuts tok max_tokens point t = []")
    case False
    then have "last (boundary_cuts tok max_tokens point t)
        \<in> set (boundary_cuts tok max_tokens point t)"
      by (rule last_in_set)
    with False show ?thesis
      by (simp add: cut_length_def b)
  next
    case True
    show ?thesis
    proof (cases "hard_cuts tok max_tokens t = []")
      case False
      then have "last (hard_cuts tok max_tokens t) \<in> set (hard_cuts tok max_tokens t)"
        by (rule last_in_set)
      with True False show ?thesis
        by (simp add: cut_length_def h)
    next
      case nothing: True
      with True show ?thesis
        by (simp add: cut_length_def)
    qed
  qed
  with \<open>t \<noteq> []\<close>
  show "((tok, drop (cut_length tok max_tokens point t) t, max_tokens, point, model),
         (tok, t, max_tokens, point, model))
        \<in> measure (\<lambda>(tok, txt, max_tokens, point, model). length txt)"
    by simp
qed

declare split_text_into_sections.simps [simp del]

subsection \<open>Sample collaborators\<close>

text \<open>
  Concrete collaborators on which the model can be run: a tokenizer that counts one
  token for each character, a prompt that puts a fixed instruction before the text, the
  splitter above, and three providers: one that always raises a rate-limit error, one
  that raises it at its first invocation only and answers the later ones, and one that
  answers every request with the same sentence.
\<close>

definition rate_limited :: "nat \<Rightarrow> string \<Rightarrow> message list \<Rightarrow> exception + completion" where
  "rate_limited i model messages = Inl (Exception RateLimitError None)"

definition fails_once :: "nat \<Rightarrow> string \<Rightarrow> message list \<Rightarrow> exception + completion" where
  "fails_once i model messages =
     (if i = 0 then Inl (Exception RateLimitError None)
      else Inr (ChatCompletion [Some ''A summary.''] (Some 50)))"

definition verbose :: "nat \<Rightarrow> string \<Rightarrow> message list \<Rightarrow> exception + completion" where
  "verbose i model messages = Inr (ChatCompletion [Some ''The book is long.''] (Some 40))"

definition sample_externals ::
  "(nat \<Rightarrow> string \<Rightarrow> message list \<Rightarrow> exception + completion) \<Rightarrow> externals" where
  "sample_externals api =
     \<lparr>prompt_messages = (\<lambda>txt tss. [\<lparr>role = ''user'', content = ''Summarize: '' @ txt\<rparr>]),
      message_tokens = (\<lambda>messages model. sum_list (map (\<lambda>m. length (content m)) messages)),
      text_tokens = length,
      sections = split_text_into_sections length,
      create = api,
      random_draw = (\<lambda>i. 1 / 2)\<rparr>"

definition initial_state :: state where
  "initial_state = \<lparr>actual_tokens = 0, cache = Map.empty, synthesis_cache = Map.empty,
     api_calls = 0, sleeps = []\<rparr>"

definition sample_parameters :: SummarizationParameters where
  "sample_parameters = \<lparr>target_summary_size = 10, summary_input_size = 20\<rparr>"

definition short_text :: string where
  "short_text = ''Short.''"

definition one_sentence :: string where
  "one_sentence = ''It was a dark night.''"

definition two_sentences :: string where
  "two_sentences = ''It was a dark night. It rained.''"

text \<open>
  The cached results of \<^verbatim>\<open>summarize\<close> for texts within the target size are the texts
  themselves. The empty cache has the property and every call keeps it.
\<close>

definition cache_sound :: "externals \<Rightarrow> state \<Rightarrow> bool" where
  "cache_sound X s =
     (\<forall>t p d m v. cache s (SummarizeKey t p d m) = Some v
        \<longrightarrow> int (text_tokens X t) \<le> target_summary_size p \<longrightarrow> v = t)"

text \<open>
  A fourth provider, whose reply is short, parameters with a wide input size, and a text
  of four times two sentences.
\<close>

definition terse :: "nat \<Rightarrow> string \<Rightarrow> message list \<Rightarrow> exception + completion" where
  "terse i model messages = Inr (ChatCompletion [Some ''ok''] (Some 7))"


definition largest_draw :: real where
  "largest_draw = 1 - 1 / 2 ^ 53"

definition roomy_parameters :: SummarizationParameters where
  "roomy_parameters = \<lparr>target_summary_size = 10, summary_input_size = 100\<rparr>"

definition long_text :: string where
  "long_text = two_sentences @ two_sentences @ two_sentences @ two_sentences"

text \<open>
  The cached results of \<^verbatim>\<open>summarize\<close> under the parameters \<open>p\<close>, division point
  \<open>d\<close> and model \<open>m\<close> are within the target size.
\<close>

definition cache_within :: "externals \<Rightarrow> SummarizationParameters \<Rightarrow> string \<Rightarrow> string \<Rightarrow> state \<Rightarrow> bool" where
  "cache_within X p d m s =
     (\<forall>t v. cache s (SummarizeKey t p d m) = Some v
        \<longrightarrow> int (text_tokens X v) \<le> target_summary_size p)"

text \<open>
  A property of the cache under the sample parameters: only texts of at most 20
  characters have an entry, and no entry is shorter than its text.
\<close>

definition never_shorter :: "string \<Rightarrow> string \<Rightarrow> state \<Rightarrow> bool" where
  "never_shorter d m s =
     (\<forall>t v. cache s (SummarizeKey t sample_parameters d m) = Some v
        \<longrightarrow> length t \<le> 20 \<and> length t \<le> length v)"

text \<open>The state in which the loop goes round again after the failed attempt \<open>k + 1\<close>.\<close>

definition retry_state :: "externals \<Rightarrow> nat \<Rightarrow> state \<Rightarrow> state" where
  "retry_state X k s = s\<lparr>api_calls := Suc (api_calls s),
      sleeps := sleeps s @ [backoff (random_draw X (length (sleeps s))) (Suc k)]\<rparr>"

text \<open>
  What \<^verbatim>\<open>gpt_summarize\<close> does with a completion: the outcome of lines 39 and 40 and the
  number they add to the counter.
\<close>

definition completion_result :: "completion \<Rightarrow> exception + string" where
  "completion_result c =
     (case usage c of
        None \<Rightarrow> Inl (Exception AttributeError None)
      | Some used \<Rightarrow>
          (case choices c of
             [] \<Rightarrow> Inl (Exception IndexError None)
           | None # _ \<Rightarrow> Inl (Exception TypeError None)
           | Some reply # _ \<Rightarrow> Inr (''[[['' @ reply @ '']]]'')))"

definition completion_tokens :: "completion \<Rightarrow> int" where
  "completion_tokens c = (case usage c of None \<Rightarrow> 0 | Some used \<Rightarrow> used)"

section \<open>Properties\<close>

subsection \<open>Rounding\<close>

text \<open>
  Rounding to the nearest integer keeps integers and bounds by integers and moves by at
  most a half. Rounding to a float is given by the scaled rounding to an integer on each
  interval from a power of two to the next, commutes with doubling and changes no float.
\<close>

lemma round_half_even_of_int [simp]: "round_half_even (of_int z) = z"
  by (simp add: round_half_even_def)

lemma round_half_even_numeral [simp]: "round_half_even (numeral k) = numeral k"
  using round_half_even_of_int[of "numeral k"] by simp

lemma round_half_even_ge: "of_int a \<le> x \<Longrightarrow> a \<le> round_half_even x"
proof -
  assume "of_int a \<le> x"
  then have "a \<le> \<lfloor>x\<rfloor>" by (simp add: le_floor_iff)
  moreover have "\<lfloor>x\<rfloor> \<le> round_half_even x" by (simp add: round_half_even_def)
  ultimately show ?thesis by simp
qed

lemma round_half_even_le: "x \<le> of_int b \<Longrightarrow> round_half_even x \<le> b"
proof -
  assume le: "x \<le> of_int b"
  have fl: "\<lfloor>x\<rfloor> \<le> b" using le by (simp add: floor_le_iff)
  show ?thesis
  proof (cases "\<lfloor>x\<rfloor> = b")
    case True
    then have "of_int b \<le> x" by (metis of_int_floor_le)
    with le have "x = of_int b" by simp
    then show ?thesis by simp
  next
    case False
    with fl have "\<lfloor>x\<rfloor> + 1 \<le> b" by simp
    then show ?thesis by (auto simp: round_half_even_def)
  qed
qed

lemma round_half_even_near: "\<bar>of_int (round_half_even x) - x\<bar> \<le> 1 / 2"
proof -
  have "of_int \<lfloor>x\<rfloor> \<le> x" "x < of_int \<lfloor>x\<rfloor> + 1" by linarith+
  then show ?thesis
    by (auto simp: round_half_even_def abs_le_iff)
qed

lemma fl_range:
  assumes "2 powr of_int n \<le> x" "x < 2 powr (of_int n + 1)"
  shows "fl x = of_int (round_half_even (x / 2 powr (of_int n - 52))) * 2 powr (of_int n - 52)"
proof -
  have pos: "0 < x"
    using assms(1) by (rule less_le_trans[rotated]) simp
  have "\<lfloor>log 2 x\<rfloor> = n"
    using assms pos by (simp add: floor_log_eq_powr_iff)
  with pos show ?thesis
    by (simp add: fl_def)
qed

lemma fl_zero [simp]: "fl 0 = 0"
  by (simp add: fl_def)

lemma fl_double:
  assumes "0 \<le> x"
  shows "fl (2 * x) = 2 * fl x"
proof (cases "x = 0")
  case True
  then show ?thesis by simp
next
  case False
  with assms have pos: "0 < x" by simp
  define n where "n = \<lfloor>log 2 x\<rfloor>"
  have n: "2 powr of_int n \<le> x" "x < 2 powr (of_int n + 1)"
    using pos floor_log_eq_powr_iff[of x 2 n] by (simp_all add: n_def)
  have n2: "2 powr of_int (n + 1) \<le> 2 * x" "2 * x < 2 powr (of_int (n + 1) + 1)"
    using n by (simp_all add: powr_add)
  have "2 * x / 2 powr (of_int (n + 1) - 52) = x / 2 powr (of_int n - 52)"
    by (simp add: powr_add powr_diff)
  moreover have "2 powr (of_int (n + 1) - 52) = 2 * (2::real) powr (of_int n - 52)"
    by (simp add: powr_add powr_diff)
  ultimately show ?thesis
    unfolding fl_range[OF n] fl_range[OF n2] by simp
qed

lemma fl_idem:
  assumes "0 < x"
  shows "fl (fl x) = fl x"
proof -
  define n where "n = \<lfloor>log 2 x\<rfloor>"
  define p :: real where "p = 2 powr (of_int n - 52)"
  define M where "M = round_half_even (x / p)"
  have n: "2 powr of_int n \<le> x" "x < 2 powr (of_int n + 1)"
    using assms floor_log_eq_powr_iff[of x 2 n] by (simp_all add: n_def)
  have p: "0 < p" by (simp add: p_def)
  have pn: "2 powr of_int n = 2 ^ 52 * p" "2 powr (of_int n + 1) = 2 ^ 53 * p"
    by (simp_all add: p_def powr_add powr_diff)
  have flx: "fl x = of_int M * p"
    unfolding fl_range[OF n] M_def p_def ..
  have b: "of_int (2 ^ 52) \<le> x / p" "x / p \<le> of_int (2 ^ 53)"
    using n p unfolding pn by (simp_all add: field_simps)
  have M: "2 ^ 52 \<le> M" "M \<le> 2 ^ 53"
    unfolding M_def using round_half_even_ge[OF b(1)] round_half_even_le[OF b(2)] by simp_all
  show ?thesis
  proof (cases "M = 2 ^ 53")
    case False
    with M have "M < 2 ^ 53" by simp
    then have "of_int M < (2 ^ 53 :: real)"
      by (metis of_int_less_iff of_int_numeral of_int_power)
    moreover from M(1) have "(2 ^ 52 :: real) \<le> of_int M"
      by (metis of_int_le_iff of_int_numeral of_int_power)
    ultimately have r: "2 powr of_int n \<le> fl x" "fl x < 2 powr (of_int n + 1)"
      unfolding flx pn using p by simp_all
    show ?thesis
      unfolding fl_range[OF r] unfolding flx p_def[symmetric] using p by simp
  next
    case True
    then have flx': "fl x = 2 ^ 53 * p"
      unfolding flx by simp
    have p2: "2 powr (of_int (n + 1) - 52) = 2 * p"
      by (simp add: p_def powr_add powr_diff)
    have r: "2 powr of_int (n + 1) \<le> fl x" "fl x < 2 powr (of_int (n + 1) + 1)"
      unfolding flx' using pn p by (simp_all add: powr_add)
    have "fl x / (2 * p) = 2 ^ 52"
      unfolding flx' using p by simp
    then have "fl (fl x) = of_int (round_half_even (2 ^ 52)) * (2 * p)"
      unfolding fl_range[OF r] p2 by simp
    also have "\<dots> = 2 ^ 53 * p" by simp
    finally show ?thesis
      by (simp add: flx')
  qed
qed

lemma fl_eval:
  fixes p :: real
  assumes "p = 2 powr (of_int n - 52)" "2 ^ 52 * p \<le> x" "x < 2 ^ 53 * p"
  shows "fl x = of_int (round_half_even (x / p)) * p"
proof -
  have "2 powr of_int n = 2 ^ 52 * p" "2 powr (of_int n + 1) = 2 ^ 53 * p"
    by (simp_all add: assms(1) powr_add powr_diff)
  with assms(2,3) have "2 powr of_int n \<le> x" "x < 2 powr (of_int n + 1)"
    by simp_all
  from fl_range[OF this] show ?thesis
    by (simp add: assms(1))
qed

lemma fl_eval_half: "1 / 2 \<le> x \<Longrightarrow> x < 1 \<Longrightarrow> fl x = of_int (round_half_even (x * 2 ^ 53)) / 2 ^ 53"
  using fl_eval[of "1 / 2 ^ 53" "- 1" x] by (simp add: powr_minus_divide flip: powr_numeral)

lemma fl_eval_1: "1 \<le> x \<Longrightarrow> x < 2 \<Longrightarrow> fl x = of_int (round_half_even (x * 2 ^ 52)) / 2 ^ 52"
  using fl_eval[of "1 / 2 ^ 52" 0 x] by (simp add: powr_minus_divide flip: powr_numeral)

lemma fl_eval_2: "2 \<le> x \<Longrightarrow> x < 4 \<Longrightarrow> fl x = of_int (round_half_even (x * 2 ^ 51)) / 2 ^ 51"
  using fl_eval[of "1 / 2 ^ 51" 1 x] by (simp add: powr_minus_divide flip: powr_numeral)

lemma fl_eval_4: "4 \<le> x \<Longrightarrow> x < 8 \<Longrightarrow> fl x = of_int (round_half_even (x * 2 ^ 50)) / 2 ^ 50"
  using fl_eval[of "1 / 2 ^ 50" 2 x] by (simp add: powr_minus_divide flip: powr_numeral)

lemma fl_one [simp]: "fl 1 = 1"
  using fl_eval_1[of 1] by simp

lemma fl_two [simp]: "fl 2 = 2"
  using fl_eval_2[of 2] by simp

text \<open>Rounding a number between 1 and 5.\<close>

lemma fl_between_1_and_5:
  assumes "1 \<le> x" "x < 5"
  shows "1 \<le> fl x \<and> fl x \<le> 5 \<and> \<bar>fl x - x\<bar> \<le> 1 / 2 ^ 51"
proof -
  have scaled: "a \<le> of_int (round_half_even (x * c)) / c \<and> of_int (round_half_even (x * c)) / c \<le> b
      \<and> \<bar>of_int (round_half_even (x * c)) / c - x\<bar> \<le> 1 / (2 * c)"
    if "0 < c" "of_int A = a * c" "of_int B = b * c" "a \<le> x" "x \<le> b" for a b c :: real and A B :: int
  proof -
    have ab: "of_int A \<le> x * c" "x * c \<le> of_int B"
      using that by simp_all
    have "A \<le> round_half_even (x * c)" "round_half_even (x * c) \<le> B"
      using round_half_even_ge[OF ab(1)] round_half_even_le[OF ab(2)] by simp_all
    then have "of_int A \<le> (of_int (round_half_even (x * c)) :: real)"
      "(of_int (round_half_even (x * c)) :: real) \<le> of_int B"
      by simp_all
    then have 1: "a \<le> of_int (round_half_even (x * c)) / c" "of_int (round_half_even (x * c)) / c \<le> b"
      using that(1,2,3) by (simp_all add: field_simps)
    have "\<bar>of_int (round_half_even (x * c)) - x * c\<bar> \<le> 1 / 2"
      by (rule round_half_even_near)
    then have "\<bar>of_int (round_half_even (x * c)) / c - x\<bar> * c \<le> 1 / 2"
      using that(1) by (simp add: abs_mult_pos[symmetric] field_simps)
    then have "\<bar>of_int (round_half_even (x * c)) / c - x\<bar> \<le> 1 / (2 * c)"
      using that(1) by (simp add: field_simps)
    with 1 show ?thesis by simp
  qed
  consider "x < 2" | "2 \<le> x" "x < 4" | "4 \<le> x"
    by linarith
  then show ?thesis
  proof cases
    case 1
    from scaled[of "2 ^ 52" "2 ^ 52" 1 "2 ^ 53" 2] assms 1 show ?thesis
      unfolding fl_eval_1[OF assms(1) 1] by simp
  next
    case 2
    from scaled[of "2 ^ 51" "2 ^ 52" 2 "2 ^ 53" 4] 2 show ?thesis
      unfolding fl_eval_2[OF 2] by simp
  next
    case 3
    with assms have "x < 8" by simp
    from scaled[of "2 ^ 50" "2 ^ 52" 4 "5 * 2 ^ 50" 5] 3 assms show ?thesis
      unfolding fl_eval_4[OF 3 \<open>x < 8\<close>] by simp
  qed
qed

text \<open>
  The sleep computed from a draw that is a float in \<open>[0, 1)\<close>: the scaling by the
  number of tries, 1 or 2, is exact.
\<close>

lemma backoff_eq:
  assumes "0 \<le> u" "u < 1" "fl u = u" "t = 1 \<or> t = 2"
  shows "backoff u t = fl (4 * u + 1) * real t * real t"
    and "1 \<le> fl (4 * u + 1)" and "fl (4 * u + 1) \<le> 5"
    and "\<bar>fl (4 * u + 1) - (4 * u + 1)\<bar> \<le> 1 / 2 ^ 51"
proof -
  have "u * 4 = 2 * (2 * u)" by simp
  then have "fl (u * 4) = fl (2 * (2 * u))" by (rule arg_cong)
  also have "\<dots> = 2 * fl (2 * u)" using assms(1) by (intro fl_double) simp
  also have "\<dots> = 2 * (2 * fl u)" using assms(1) by (simp only: fl_double)
  finally have four: "fl (u * 4) = 4 * u" using assms(3) by simp
  define r where "r = fl (4 * u + 1)"
  have range: "1 \<le> 4 * u + 1" "4 * u + 1 < 5" using assms(1,2) by simp_all
  from fl_between_1_and_5[OF range]
  show b: "1 \<le> fl (4 * u + 1)" "fl (4 * u + 1) \<le> 5" "\<bar>fl (4 * u + 1) - (4 * u + 1)\<bar> \<le> 1 / 2 ^ 51"
    by simp_all
  have idem: "fl r = r"
    unfolding r_def using range by (intro fl_idem) simp
  have pos: "0 \<le> r" using b(1) by (simp add: r_def)
  have "backoff u t = fl (fl (r * fl (real t)) * fl (real t))"
    by (simp add: backoff_def four r_def)
  also have "\<dots> = r * real t * real t"
  proof -
    from assms(4) show ?thesis
    proof
      assume "t = 1"
      then show ?thesis by (simp add: idem)
    next
      assume "t = 2"
      have "fl (r * 2) = 2 * r"
        using fl_double[OF pos] idem by (simp add: mult.commute)
      moreover have "fl (2 * r * 2) = 4 * r"
        using fl_double[of "2 * r"] fl_double[OF pos] idem pos by (simp add: mult.commute)
      ultimately show ?thesis
        using \<open>t = 2\<close> by simp
    qed
  qed
  finally show "backoff u t = fl (4 * u + 1) * real t * real t"
    by (simp add: r_def)
qed

lemma fl_half [simp]: "fl (1 / 2) = 1 / 2"
  using fl_eval_half[of "1 / 2"] by simp

lemma fl_three [simp]: "fl 3 = 3"
  using fl_eval_2[of 3] by simp

lemma backoff_half [simp]: "backoff (1 / 2) 1 = 3" "backoff (1 / 2) 2 = 12"
  using backoff_eq(1)[of "1 / 2" 1] backoff_eq(1)[of "1 / 2" 2] by simp_all

lemma fl_largest_draw: "fl largest_draw = largest_draw"
  using fl_eval_half[of largest_draw] by (simp add: largest_draw_def)

lemma largest_draw_rounds_to_5: "fl (4 * largest_draw + 1) = 5"
  using fl_eval_4[of "4 * largest_draw + 1"]
  by (simp add: largest_draw_def round_half_even_def)

lemma backoff_largest_draw: "backoff largest_draw 1 = 5" "backoff largest_draw 2 = 20"
proof -
  have u: "0 \<le> largest_draw" "largest_draw < 1"
    by (simp_all add: largest_draw_def)
  from backoff_eq(1)[OF u fl_largest_draw, of 1] backoff_eq(1)[OF u fl_largest_draw, of 2]
  show "backoff largest_draw 1 = 5" "backoff largest_draw 2 = 20"
    by (simp_all add: largest_draw_rounds_to_5)
qed

subsection \<open>The retry loop\<close>

lemma gpt_summarize_loop_unfold:
  "gpt_summarize_loop X t tss k s =
     (case create X (api_calls s) ''gpt-3.5-turbo-1106'' (prompt_messages X t tss) of
        Inr c \<Rightarrow> (completion_result c,
                  s\<lparr>api_calls := Suc (api_calls s),
                    actual_tokens := actual_tokens s + completion_tokens c\<rparr>)
      | Inl e \<Rightarrow> if transient e \<and> Suc k < MAX_ATTEMPTS
                 then gpt_summarize_loop X t tss (Suc k) (retry_state X k s)
                 else (Inl e, s\<lparr>api_calls := Suc (api_calls s)\<rparr>))"
  by (subst gpt_summarize_loop.simps)
    (auto simp: Let_def transient_def retry_state_def completion_result_def completion_tokens_def
      split: sum.split option.split list.split)

lemma gpt_summarize_loop_cache:
  "cache (snd (gpt_summarize_loop X t tss k s)) = cache s
   \<and> synthesis_cache (snd (gpt_summarize_loop X t tss k s)) = synthesis_cache s"
proof (induction "MAX_ATTEMPTS - k" arbitrary: k s)
  case 0
  then show ?case
    by (subst (1 2) gpt_summarize_loop_unfold) (simp split: sum.split)
next
  case (Suc n)
  then have "n = MAX_ATTEMPTS - Suc k" by simp
  then have "cache (snd (gpt_summarize_loop X t tss (Suc k) (retry_state X k s)))
      = cache (retry_state X k s)
    \<and> synthesis_cache (snd (gpt_summarize_loop X t tss (Suc k) (retry_state X k s)))
      = synthesis_cache (retry_state X k s)"
    by (rule Suc.hyps(1))
  then show ?case
    by (subst (1 2) gpt_summarize_loop_unfold) (simp add: retry_state_def split: sum.split)
qed

text \<open>
  The outcome of a run is the outcome of its last invocation, and so is what the run
  adds to the counter.
\<close>

lemma gpt_summarize_loop_result:
  assumes "gpt_summarize_loop X t tss k s = (r, s')"
  shows "api_calls s < api_calls s' \<and>
    (case create X (api_calls s' - 1) ''gpt-3.5-turbo-1106'' (prompt_messages X t tss) of
       Inr c \<Rightarrow> r = completion_result c
                 \<and> actual_tokens s' = actual_tokens s + completion_tokens c
     | Inl e \<Rightarrow> r = Inl e \<and> actual_tokens s' = actual_tokens s)"
  using assms
proof (induction "MAX_ATTEMPTS - k" arbitrary: k s)
  case 0
  then show ?case
    by (subst (asm) gpt_summarize_loop_unfold) (auto split: sum.splits)
next
  case (Suc n)
  show ?case
  proof (cases "create X (api_calls s) ''gpt-3.5-turbo-1106'' (prompt_messages X t tss)")
    case (Inr c)
    with Suc.prems show ?thesis
      by (subst (asm) gpt_summarize_loop_unfold) auto
  next
    case (Inl e)
    show ?thesis
    proof (cases "transient e \<and> Suc k < MAX_ATTEMPTS")
      case False
      with Inl Suc.prems show ?thesis
        by (subst (asm) gpt_summarize_loop_unfold) auto
    next
      case True
      with Inl Suc.prems
      have run: "gpt_summarize_loop X t tss (Suc k) (retry_state X k s) = (r, s')"
        by (subst (asm) gpt_summarize_loop_unfold) simp
      from Suc.hyps(2) have "n = MAX_ATTEMPTS - Suc k" by simp
      from Suc.hyps(1)[OF this run] show ?thesis
        by (auto simp: retry_state_def split: sum.splits)
    qed
  qed
qed

text \<open>The retries of a run: how many, after which failures, and the sleeps between them.\<close>

lemma gpt_summarize_loop_retries:
  assumes "gpt_summarize_loop X t tss k s = (r, s')" and "k < MAX_ATTEMPTS"
  shows "\<exists>m. k + m < MAX_ATTEMPTS \<and> api_calls s' = api_calls s + m + 1
     \<and> (\<forall>j<m. \<exists>e. create X (api_calls s + j) ''gpt-3.5-turbo-1106'' (prompt_messages X t tss) = Inl e
            \<and> transient e)
     \<and> (k + m + 1 = MAX_ATTEMPTS
          \<or> \<not> (\<exists>e. create X (api_calls s + m) ''gpt-3.5-turbo-1106'' (prompt_messages X t tss) = Inl e
                \<and> transient e))
     \<and> sleeps s' = sleeps s @ map (\<lambda>j. backoff (random_draw X (length (sleeps s) + j)) (k + j + 1))
                                  [0..<m]"
  using assms
proof (induction "MAX_ATTEMPTS - k" arbitrary: k s)
  case 0
  then show ?case by simp
next
  case (Suc n)
  let ?call = "\<lambda>i. create X i ''gpt-3.5-turbo-1106'' (prompt_messages X t tss)"
  show ?case
  proof (cases "\<exists>e. ?call (api_calls s) = Inl e \<and> transient e \<and> Suc k < MAX_ATTEMPTS")
    case False
    then have stop: "gpt_summarize_loop X t tss k s =
        (case ?call (api_calls s) of
           Inr c \<Rightarrow> (completion_result c,
                     s\<lparr>api_calls := Suc (api_calls s),
                       actual_tokens := actual_tokens s + completion_tokens c\<rparr>)
         | Inl e \<Rightarrow> (Inl e, s\<lparr>api_calls := Suc (api_calls s)\<rparr>))"
      by (subst gpt_summarize_loop_unfold) (auto split: sum.split)
    have "k + 0 < MAX_ATTEMPTS \<and> api_calls s' = api_calls s + 0 + 1
       \<and> (k + 0 + 1 = MAX_ATTEMPTS \<or> \<not> (\<exists>e. ?call (api_calls s + 0) = Inl e \<and> transient e))
       \<and> sleeps s' = sleeps s"
      using False Suc.prems stop by (auto split: sum.splits)
    then show ?thesis
      by (intro exI[of _ 0]) simp
  next
    case True
    then obtain e where e: "?call (api_calls s) = Inl e" "transient e" "Suc k < MAX_ATTEMPTS"
      by blast
    with Suc.prems
    have run: "gpt_summarize_loop X t tss (Suc k) (retry_state X k s) = (r, s')"
      by (subst (asm) gpt_summarize_loop_unfold) simp
    from Suc.hyps(2) have "n = MAX_ATTEMPTS - Suc k" by simp
    from Suc.hyps(1)[OF this run e(3)]
    obtain m where m: "Suc k + m < MAX_ATTEMPTS"
      "api_calls s' = api_calls (retry_state X k s) + m + 1"
      "\<forall>j<m. \<exists>e. ?call (api_calls (retry_state X k s) + j) = Inl e \<and> transient e"
      "Suc k + m + 1 = MAX_ATTEMPTS
         \<or> \<not> (\<exists>e. ?call (api_calls (retry_state X k s) + m) = Inl e \<and> transient e)"
      "sleeps s' = sleeps (retry_state X k s)
         @ map (\<lambda>j. backoff (random_draw X (length (sleeps (retry_state X k s)) + j)) (Suc k + j + 1))
             [0..<m]"
      by blast
    have calls: "api_calls (retry_state X k s) = Suc (api_calls s)"
      and slept: "sleeps (retry_state X k s) = sleeps s
          @ [backoff (random_draw X (length (sleeps s))) (Suc k)]"
      by (simp_all add: retry_state_def)
    have 1: "k + Suc m < MAX_ATTEMPTS" using m(1) by simp
    have 2: "api_calls s' = api_calls s + Suc m + 1" using m(2) calls by simp
    have 3: "\<forall>j<Suc m. \<exists>e. ?call (api_calls s + j) = Inl e \<and> transient e"
    proof (intro allI impI)
      fix j assume "j < Suc m"
      show "\<exists>e. ?call (api_calls s + j) = Inl e \<and> transient e"
      proof (cases j)
        case 0
        with e show ?thesis by auto
      next
        case (Suc i)
        with \<open>j < Suc m\<close> have "i < m" by simp
        with m(3) calls Suc show ?thesis by simp
      qed
    qed
    have 4: "k + Suc m + 1 = MAX_ATTEMPTS
         \<or> \<not> (\<exists>e. ?call (api_calls s + Suc m) = Inl e \<and> transient e)"
      using m(4) calls by simp
    have 5: "sleeps s' = sleeps s @ map (\<lambda>j. backoff (random_draw X (length (sleeps s) + j)) (k + j + 1))
                                  [0..<Suc m]"
      unfolding m(5) slept
      by (simp add: map_upt_Suc del: upt_Suc)
    from 1 2 3 4 5 show ?thesis by blast
  qed
qed

text \<open>A run that returns: its last invocation gave a completion with a text.\<close>

lemma gpt_summarize_loop_returns:
  assumes "gpt_summarize_loop X t tss k s = (Inr v, s')"
  shows "\<exists>reply rest used. create X (api_calls s' - 1) ''gpt-3.5-turbo-1106'' (prompt_messages X t tss)
        = Inr (ChatCompletion (Some reply # rest) (Some used))
     \<and> v = ''[[['' @ reply @ '']]]'' \<and> actual_tokens s' = actual_tokens s + used"
proof (cases "create X (api_calls s' - 1) ''gpt-3.5-turbo-1106'' (prompt_messages X t tss)")
  case (Inl e)
  with gpt_summarize_loop_result[OF assms] show ?thesis by simp
next
  case (Inr c)
  with gpt_summarize_loop_result[OF assms]
  have "completion_result c = Inr v" "actual_tokens s' = actual_tokens s + completion_tokens c"
    by simp_all
  with Inr show ?thesis
    by (cases c)
      (auto simp: completion_result_def completion_tokens_def split: option.splits list.splits)
qed

lemma markers_present:
  "sublist ''[[['' (''[[['' @ reply @ '']]]'')" "sublist '']]]'' (''[[['' @ reply @ '']]]'')"
proof -
  have "prefix ''[[['' (''[[['' @ reply @ '']]]'')"
    by simp
  then show "sublist ''[[['' (''[[['' @ reply @ '']]]'')"
    by (rule prefix_imp_sublist)
  have "suffix '']]]'' ((''[[['' @ reply) @ '']]]'')"
    by (rule suffix_appendI) simp
  then show "sublist '']]]'' (''[[['' @ reply @ '']]]'')"
    by (simp add: suffix_imp_sublist)
qed

subsection \<open>The sample collaborators, evaluated\<close>

lemma sample_externals_fields [simp]:
  "prompt_messages (sample_externals api) t tss = [\<lparr>role = ''user'', content = ''Summarize: '' @ t\<rparr>]"
  "message_tokens (sample_externals api) ms model = sum_list (map (\<lambda>m. length (content m)) ms)"
  "text_tokens (sample_externals api) = length"
  "sections (sample_externals api) = split_text_into_sections length"
  "create (sample_externals api) = api"
  "random_draw (sample_externals api) i = 1 / 2"
  by (simp_all add: sample_externals_def)

lemma sample_parameters_fields [simp]:
  "target_summary_size sample_parameters = 10" "summary_input_size sample_parameters = 20"
  by (simp_all add: sample_parameters_def)

lemma roomy_parameters_fields [simp]:
  "target_summary_size roomy_parameters = 10" "summary_input_size roomy_parameters = 100"
  by (simp_all add: roomy_parameters_def)

lemma sample_texts [simp]:
  "length short_text = 6" "length one_sentence = 20" "length two_sentences = 31"
  by (simp_all add: short_text_def one_sentence_def two_sentences_def)

lemma completion_samples [simp]:
  "completion_result (ChatCompletion (Some reply # rest) (Some used)) = Inr (''[[['' @ reply @ '']]]'')"
  "completion_result (ChatCompletion (None # rest) (Some used)) = Inl (Exception TypeError None)"
  "completion_result (ChatCompletion [] (Some used)) = Inl (Exception IndexError None)"
  "completion_result (ChatCompletion replies None) = Inl (Exception AttributeError None)"
  "completion_tokens (ChatCompletion replies (Some used)) = used"
  "completion_tokens (ChatCompletion replies None) = 0"
  by (simp_all add: completion_result_def completion_tokens_def)

lemma backoff_samples [simp]:
  "backoff (1 / 2) (Suc 0) = 3" "backoff (1 / 2) (Suc (Suc 0)) = 12"
  "backoff largest_draw (Suc 0) = 5" "backoff largest_draw (Suc (Suc 0)) = 20"
  using backoff_half backoff_largest_draw by (simp_all add: numeral_2_eq_2)


lemma rate_limited_run: "gpt_summarize (sample_externals rate_limited) ''abc'' 5 initial_state =
   (Inl (Exception RateLimitError None),
    \<lparr>actual_tokens = 0, cache = Map.empty, synthesis_cache = Map.empty, api_calls = 3,
     sleeps = [3, 12]\<rparr>)"
  by (simp add: gpt_summarize_def gpt_summarize_loop_unfold rate_limited_def
     transient_def caught_def MAX_ATTEMPTS_def retry_state_def initial_state_def)


lemma largest_draw_run:
  "gpt_summarize ((sample_externals rate_limited)\<lparr>random_draw := \<lambda>i. largest_draw\<rparr>) ''abc'' 5
     initial_state =
   (Inl (Exception RateLimitError None),
    \<lparr>actual_tokens = 0, cache = Map.empty, synthesis_cache = Map.empty, api_calls = 3,
     sleeps = [5, 20]\<rparr>)"
  by (simp add: gpt_summarize_def gpt_summarize_loop_unfold rate_limited_def sample_externals_def
     transient_def caught_def MAX_ATTEMPTS_def retry_state_def initial_state_def)

subsection \<open>Claims about gpt_summarize\<close>

text \<open>
  Claim C4. When every invocation of the model fails with a transient provider error,
  \<^verbatim>\<open>gpt_summarize\<close> invokes it exactly \<^verbatim>\<open>MAX_ATTEMPTS\<close> = 3 times and then raises the
  error of the third attempt: there is no fourth invocation and no result is returned.
  The hypothesis is needed for the three attempts only. The failed attempts leave the
  counter \<open>actual_tokens\<close> and the cache as they were.
\<close>

theorem gpt_summarize_retry_bound:
  assumes "\<forall>i<MAX_ATTEMPTS. \<exists>e.
      create X (api_calls s + i) ''gpt-3.5-turbo-1106'' (prompt_messages X t tss) = Inl e \<and> transient e"
  shows "\<exists>e s'. gpt_summarize X t tss s = (Inl e, s')
     \<and> create X (api_calls s + 2) ''gpt-3.5-turbo-1106'' (prompt_messages X t tss) = Inl e
     \<and> api_calls s' = api_calls s + MAX_ATTEMPTS
     \<and> actual_tokens s' = actual_tokens s \<and> cache s' = cache s"
proof -
  obtain r s' where run: "gpt_summarize_loop X t tss 0 s = (r, s')"
    by (cases "gpt_summarize_loop X t tss 0 s")
  have "0 < MAX_ATTEMPTS" by (simp add: MAX_ATTEMPTS_def)
  from gpt_summarize_loop_retries[OF run this]
  obtain m where m: "m < MAX_ATTEMPTS" "api_calls s' = api_calls s + m + 1"
    "m + 1 = MAX_ATTEMPTS
       \<or> \<not> (\<exists>e. create X (api_calls s + m) ''gpt-3.5-turbo-1106'' (prompt_messages X t tss) = Inl e
             \<and> transient e)"
    by auto
  from m(1,3) assms have "m + 1 = MAX_ATTEMPTS" by blast
  with m(2) have calls: "api_calls s' = api_calls s + MAX_ATTEMPTS" by simp
  then have last_call: "api_calls s' - 1 = api_calls s + 2" by (simp add: MAX_ATTEMPTS_def)
  from assms[rule_format, of 2] obtain e where e:
    "create X (api_calls s + 2) ''gpt-3.5-turbo-1106'' (prompt_messages X t tss) = Inl e"
    by (auto simp: MAX_ATTEMPTS_def)
  from gpt_summarize_loop_result[OF run] e last_call
  have "r = Inl e" "actual_tokens s' = actual_tokens s"
    by (auto split: sum.splits)
  moreover have "cache s' = cache s"
    using gpt_summarize_loop_cache[of X t tss 0 s] run by simp
  ultimately show ?thesis
    using run e calls by (simp add: gpt_summarize_def)
qed

theorem gpt_summarize_retry_bound_witness:
  "transient (Exception RateLimitError None)
   \<and> create (sample_externals rate_limited) 0 ''gpt-3.5-turbo-1106''
        (prompt_messages (sample_externals rate_limited) ''abc'' 5) = Inl (Exception RateLimitError None)
   \<and> create (sample_externals rate_limited) 1 ''gpt-3.5-turbo-1106''
        (prompt_messages (sample_externals rate_limited) ''abc'' 5) = Inl (Exception RateLimitError None)
   \<and> create (sample_externals rate_limited) 2 ''gpt-3.5-turbo-1106''
        (prompt_messages (sample_externals rate_limited) ''abc'' 5) = Inl (Exception RateLimitError None)
   \<and> fst (gpt_summarize (sample_externals rate_limited) ''abc'' 5 initial_state)
        = Inl (Exception RateLimitError None)
   \<and> api_calls (snd (gpt_summarize (sample_externals rate_limited) ''abc'' 5 initial_state)) = 3
   \<and> actual_tokens (snd (gpt_summarize (sample_externals rate_limited) ''abc'' 5 initial_state)) = 0"
proof -
  have h: "\<forall>i<MAX_ATTEMPTS. \<exists>e. create (sample_externals rate_limited) (api_calls initial_state + i)
        ''gpt-3.5-turbo-1106'' (prompt_messages (sample_externals rate_limited) ''abc'' 5) = Inl e
        \<and> transient e"
    by (simp add: rate_limited_def transient_def caught_def)
  from gpt_summarize_retry_bound[OF h] show ?thesis
    by (auto simp: rate_limited_def transient_def caught_def initial_state_def MAX_ATTEMPTS_def)
qed

text \<open>
  Claim C9, as the specification states it: before each retry of a transiently failed
  attempt number \<open>t < 3\<close> the program sleeps for \<open>r * t * t\<close> seconds with \<open>r\<close> drawn
  uniformly from \<open>[1, 5)\<close>. The bound on \<open>r\<close> does not hold: \<open>r\<close> is the float
  \<^verbatim>\<open>random.random() * 4.0 + 1.0\<close>, and for the largest draw, \<open>1 - 2\<^sup>-\<^sup>5\<^sup>3\<close>, the product
  \<open>4 - 2\<^sup>-\<^sup>5\<^sup>1\<close> is a float and the sum \<open>5 - 2\<^sup>-\<^sup>5\<^sup>1\<close> lies halfway between the floats
  \<open>5 - 2\<^sup>-\<^sup>5\<^sup>0\<close> and 5 and is rounded to 5. With this draw at every retry a run whose
  three attempts are rate-limited sleeps for 5 and for 20 seconds: \<open>r = 5\<close> both times,
  and no \<open>r\<close> below 5 gives these durations.
\<close>

theorem gpt_summarize_backoff_counterexample:
  "0 \<le> largest_draw \<and> largest_draw < 1 \<and> fl largest_draw = largest_draw
   \<and> fl (fl (largest_draw * 4) + 1) = 5
   \<and> sleeps (snd (gpt_summarize ((sample_externals rate_limited)\<lparr>random_draw := \<lambda>i. largest_draw\<rparr>)
        ''abc'' 5 initial_state)) = [5, 20]
   \<and> \<not> (\<exists>r1 r2. 1 \<le> r1 \<and> r1 < 5 \<and> 1 \<le> r2 \<and> r2 < 5
          \<and> sleeps (snd (gpt_summarize
                ((sample_externals rate_limited)\<lparr>random_draw := \<lambda>i. largest_draw\<rparr>)
                ''abc'' 5 initial_state)) = [r1 * 1 * 1, r2 * 2 * 2 :: real])"
proof -
  have "fl (largest_draw * 4) = fl (2 * (2 * largest_draw))"
    by (rule arg_cong) simp
  also have "\<dots> = 4 * largest_draw"
    using fl_double[of "2 * largest_draw"] fl_double[of largest_draw] fl_largest_draw
    by (simp add: largest_draw_def)
  finally have "fl (fl (largest_draw * 4) + 1) = 5"
    using largest_draw_rounds_to_5 by simp
  then show ?thesis
    by (simp add: largest_draw_run fl_largest_draw) (simp add: largest_draw_def)
qed

text \<open>
  Claim C9, amended. A run of \<^verbatim>\<open>gpt_summarize\<close> makes \<open>m + 1\<close> attempts with \<open>m < 3\<close>:
  the attempts \<open>1, \<dots>, m\<close> failed with a transient error and were retried, and attempt
  \<open>m + 1\<close> was the third or did not fail so. Before the retry that follows the failed
  attempt number \<open>t = j + 1\<close> the program sleeps once, for exactly \<open>r * t * t\<close> seconds,
  where \<open>r\<close> is the float nearest to \<open>4 * u + 1\<close> for the draw \<open>u\<close> of
  \<^verbatim>\<open>random.random()\<close> made at this retry, and these are all its sleeps. With the draws
  floats in \<open>[0, 1)\<close>, \<open>r\<close> lies in the closed interval \<open>[1, 5]\<close> and differs from
  \<open>4 * u + 1\<close> by at most \<open>2\<^sup>-\<^sup>5\<^sup>1\<close>; the scaling by the square of the attempt number
  is exact. The draws are a parameter of the model: how they are distributed is a
  property of the library's generator and not part of the statement.
\<close>

theorem gpt_summarize_backoff:
  assumes "gpt_summarize X t tss s = (r, s')"
    and "\<forall>i. 0 \<le> random_draw X i \<and> random_draw X i < 1 \<and> fl (random_draw X i) = random_draw X i"
  shows "\<exists>m<MAX_ATTEMPTS. api_calls s' = api_calls s + m + 1
     \<and> (\<forall>j<m. \<exists>e. create X (api_calls s + j) ''gpt-3.5-turbo-1106'' (prompt_messages X t tss) = Inl e
            \<and> transient e)
     \<and> (m + 1 = MAX_ATTEMPTS
          \<or> \<not> (\<exists>e. create X (api_calls s + m) ''gpt-3.5-turbo-1106'' (prompt_messages X t tss) = Inl e
                \<and> transient e))
     \<and> sleeps s' = sleeps s @ map (\<lambda>j. fl (4 * random_draw X (length (sleeps s) + j) + 1)
                                       * real (j + 1) * real (j + 1)) [0..<m]
     \<and> (\<forall>j<m. 1 \<le> fl (4 * random_draw X (length (sleeps s) + j) + 1)
              \<and> fl (4 * random_draw X (length (sleeps s) + j) + 1) \<le> 5
              \<and> \<bar>fl (4 * random_draw X (length (sleeps s) + j) + 1)
                   - (4 * random_draw X (length (sleeps s) + j) + 1)\<bar> \<le> 1 / 2 ^ 51)"
proof -
  from assms(1) have run: "gpt_summarize_loop X t tss 0 s = (r, s')"
    by (simp add: gpt_summarize_def)
  have "0 < MAX_ATTEMPTS" by (simp add: MAX_ATTEMPTS_def)
  from gpt_summarize_loop_retries[OF run this]
  obtain m where m: "m < MAX_ATTEMPTS" "api_calls s' = api_calls s + m + 1"
    "\<forall>j<m. \<exists>e. create X (api_calls s + j) ''gpt-3.5-turbo-1106'' (prompt_messages X t tss) = Inl e
        \<and> transient e"
    "m + 1 = MAX_ATTEMPTS
       \<or> \<not> (\<exists>e. create X (api_calls s + m) ''gpt-3.5-turbo-1106'' (prompt_messages X t tss) = Inl e
             \<and> transient e)"
    "sleeps s' = sleeps s @ map (\<lambda>j. backoff (random_draw X (length (sleeps s) + j)) (j + 1)) [0..<m]"
    by auto
  have draw: "0 \<le> random_draw X i" "random_draw X i < 1" "fl (random_draw X i) = random_draw X i"
    for i
    using assms(2) by simp_all
  have "map (\<lambda>j. backoff (random_draw X (length (sleeps s) + j)) (j + 1)) [0..<m]
      = map (\<lambda>j. fl (4 * random_draw X (length (sleeps s) + j) + 1) * real (j + 1) * real (j + 1))
          [0..<m]"
  proof (rule map_cong[OF refl])
    fix j assume "j \<in> set [0..<m]"
    with m(1) have "j + 1 = 1 \<or> j + 1 = 2" by (auto simp: MAX_ATTEMPTS_def)
    from backoff_eq(1)[OF draw this]
    show "backoff (random_draw X (length (sleeps s) + j)) (j + 1)
        = fl (4 * random_draw X (length (sleeps s) + j) + 1) * real (j + 1) * real (j + 1)" .
  qed
  with m(5) have slept: "sleeps s' = sleeps s
      @ map (\<lambda>j. fl (4 * random_draw X (length (sleeps s) + j) + 1) * real (j + 1) * real (j + 1))
          [0..<m]"
    by simp
  have one: "1 = 1 \<or> (1::nat) = 2" by simp
  have range: "1 \<le> fl (4 * random_draw X i + 1) \<and> fl (4 * random_draw X i + 1) \<le> 5
      \<and> \<bar>fl (4 * random_draw X i + 1) - (4 * random_draw X i + 1)\<bar> \<le> 1 / 2 ^ 51" for i
    using backoff_eq(2,3,4)[OF draw one] by simp
  from m(1,2,3,4) slept range show ?thesis by blast
qed

theorem gpt_summarize_backoff_witness:
  "0 \<le> random_draw (sample_externals rate_limited) 0
   \<and> random_draw (sample_externals rate_limited) 0 < 1
   \<and> fl (random_draw (sample_externals rate_limited) 0) = random_draw (sample_externals rate_limited) 0
   \<and> 0 \<le> random_draw (sample_externals rate_limited) 1
   \<and> random_draw (sample_externals rate_limited) 1 < 1
   \<and> fl (random_draw (sample_externals rate_limited) 1) = random_draw (sample_externals rate_limited) 1
   \<and> gpt_summarize (sample_externals rate_limited) ''abc'' 5 initial_state
        = (Inl (Exception RateLimitError None),
           \<lparr>actual_tokens = 0, cache = Map.empty, synthesis_cache = Map.empty, api_calls = 3,
            sleeps = [3, 12]\<rparr>)
   \<and> [3, 12] = sleeps initial_state
         @ [fl (4 * random_draw (sample_externals rate_limited) 0 + 1) * 1 * 1,
            fl (4 * random_draw (sample_externals rate_limited) 1 + 1) * 2 * 2]
   \<and> 1 \<le> fl (4 * random_draw (sample_externals rate_limited) 1 + 1)
   \<and> fl (4 * random_draw (sample_externals rate_limited) 1 + 1) \<le> 5"
proof -
  have h: "\<forall>i. 0 \<le> random_draw (sample_externals rate_limited) i
      \<and> random_draw (sample_externals rate_limited) i < 1
      \<and> fl (random_draw (sample_externals rate_limited) i)
          = random_draw (sample_externals rate_limited) i"
    by simp
  let ?s1 = "\<lparr>actual_tokens = 0, cache = Map.empty, synthesis_cache = Map.empty, api_calls = 3,
      sleeps = [3, 12]\<rparr>"
  from gpt_summarize_backoff[OF rate_limited_run h]
  obtain m where m: "api_calls ?s1 = api_calls initial_state + m + 1"
    "sleeps ?s1
       = sleeps initial_state @ map (\<lambda>j. fl (4 * random_draw (sample_externals rate_limited)
            (length (sleeps initial_state) + j) + 1) * real (j + 1) * real (j + 1)) [0..<m]"
    "\<forall>j<m. 1 \<le> fl (4 * random_draw (sample_externals rate_limited)
                (length (sleeps initial_state) + j) + 1)
       \<and> fl (4 * random_draw (sample_externals rate_limited)
                (length (sleeps initial_state) + j) + 1) \<le> 5"
    by blast
  from m(1) have "m = Suc (Suc 0)" by (simp add: initial_state_def)
  with m(2,3) rate_limited_run show ?thesis
    by (simp add: initial_state_def)
qed



subsection \<open>The decorator and the cache\<close>

lemmas memoize_defs = memoize_to_file_def summarize_entry_def store_summarize_entry_def
  synthesis_entry_def store_synthesis_entry_def

lemma summarize_Suc:
  "summarize (Suc n) X t p d m s =
     memoize_to_file (summarize_entry (SummarizeKey t p d m))
       (store_summarize_entry (SummarizeKey t p d m))
       (summarize_body X (summarize n X) t p d m) s"
  by simp

lemma memoize_to_file_hit:
  "lookup s = Some v \<Longrightarrow> memoize_to_file lookup store f s = Some (Inr v, s)"
  by (simp add: memoize_to_file_def)

lemma memoize_to_file_miss:
  "lookup s = None \<Longrightarrow> memoize_to_file lookup store f s =
     (case f s of
        None \<Rightarrow> None
      | Some (Inl e, s1) \<Rightarrow> Some (Inl e, s1)
      | Some (Inr v, s1) \<Rightarrow> Some (Inr v, store v s1))"
  by (simp add: memoize_to_file_def)

text \<open>
  Every call keeps \<open>cache_sound\<close>, so a cache that started empty and was written by
  the program alone answers a text within the target size with the text itself.
\<close>

lemma summarize_each_cache_sound:
  assumes f: "\<And>x s r s'. cache_sound X s \<Longrightarrow> f x s = Some (r, s') \<Longrightarrow> cache_sound X s'"
    and "cache_sound X s" and "summarize_each f xs s = Some (r, s')"
  shows "cache_sound X s'"
  using assms(2,3)
proof (induction xs arbitrary: s r s')
  case Nil
  then show ?case by simp
next
  case (Cons x xs)
  from Cons.prems(2) obtain r1 s1 where first: "f x s = Some (r1, s1)"
    by (auto split: option.splits)
  from f[OF Cons.prems(1) first] have s1: "cache_sound X s1" .
  show ?case
  proof (cases r1)
    case (Inl e)
    with Cons.prems(2) first s1 show ?thesis by simp
  next
    case (Inr y)
    with Cons.prems(2) first obtain r2 s2 where rest: "summarize_each f xs s1 = Some (r2, s2)"
      and "s' = s2"
      by (auto split: option.splits sum.splits)
    with Cons.IH[OF s1 rest] show ?thesis by simp
  qed
qed

lemma cache_sound_store:
  "cache_sound X s \<Longrightarrow> (int (text_tokens X t) \<le> target_summary_size p \<Longrightarrow> v = t)
     \<Longrightarrow> cache_sound X (s\<lparr>cache := (cache s)(SummarizeKey t p d m \<mapsto> v)\<rparr>)"
  by (auto simp: cache_sound_def)

lemma gpt_summarize_cache_sound:
  "cache_sound X s \<Longrightarrow> gpt_summarize X t tss s = (r, s') \<Longrightarrow> cache_sound X s'"
  using gpt_summarize_loop_cache[of X t tss 0 s]
  by (simp add: cache_sound_def gpt_summarize_def)

lemma summarize_cache_sound:
  assumes "cache_sound X s" and "summarize n X t p d m s = Some (r, s')"
  shows "cache_sound X s'"
  using assms
proof (induction n arbitrary: t s r s')
  case 0
  then show ?case by simp
next
  case (Suc n)
  let ?key = "SummarizeKey t p d m"
  let ?body = "summarize_body X (summarize n X) t p d m s"
  show ?case
  proof (cases "cache s ?key")
    case (Some v)
    with Suc.prems show ?thesis
      by (simp add: memoize_defs)
  next
    case None
    with Suc.prems(2) obtain r1 s1 where body: "?body = Some (r1, s1)"
      by (auto simp: memoize_defs split: option.splits)
    have sound1: "cache_sound X s1" and short: "int (text_tokens X t) \<le> target_summary_size p \<Longrightarrow> r1 = Inr t"
    proof -
      consider (short) "int (text_tokens X t) \<le> target_summary_size p"
        | (medium) "\<not> int (text_tokens X t) \<le> target_summary_size p"
            "int (text_tokens X t) \<le> summary_input_size p"
        | (long) "\<not> int (text_tokens X t) \<le> target_summary_size p"
            "\<not> int (text_tokens X t) \<le> summary_input_size p"
        by blast
      then have "cache_sound X s1 \<and> (int (text_tokens X t) \<le> target_summary_size p \<longrightarrow> r1 = Inr t)"
      proof cases
        case short
        with body Suc.prems(1) show ?thesis
          by (simp add: summarize_body_def)
      next
        case medium
        with body have "gpt_summarize X t (target_summary_size p) s = (r1, s1)"
          by (simp add: summarize_body_def)
        from gpt_summarize_cache_sound[OF Suc.prems(1) this] medium show ?thesis
          by simp
      next
        case long
        let ?each = "summarize_each (\<lambda>x. summarize n X x p d m)
            (sections X t (summary_input_size p) d m) s"
        from long body obtain r2 s2 where each: "?each = Some (r2, s2)"
          by (auto simp: summarize_body_def split: option.splits)
        have s2: "cache_sound X s2"
          by (rule summarize_each_cache_sound[OF _ Suc.prems(1) each]) (use Suc.IH in blast)
        show ?thesis
        proof (cases r2)
          case (Inl e)
          with long body each s2 show ?thesis
            by (simp add: summarize_body_def)
        next
          case (Inr ys)
          with long body each
          have "summarize n X (join (newline @ newline) ys) p d m s2 = Some (r1, s1)"
            by (simp add: summarize_body_def)
          from Suc.IH[OF s2 this] long show ?thesis
            by simp
        qed
      qed
      then show "cache_sound X s1"
        and "int (text_tokens X t) \<le> target_summary_size p \<Longrightarrow> r1 = Inr t"
        by simp_all
    qed
    show ?thesis
    proof (cases r1)
      case (Inl e)
      with None Suc.prems(2) body sound1 show ?thesis
        by (simp add: memoize_defs)
    next
      case (Inr v)
      with None Suc.prems(2) body have "s' = s1\<lparr>cache := (cache s1)(?key \<mapsto> v)\<rparr>"
        by (simp add: memoize_defs)
      moreover have "int (text_tokens X t) \<le> target_summary_size p \<Longrightarrow> v = t"
        using short Inr by simp
      ultimately show ?thesis
        using sound1 by (simp add: cache_sound_store)
    qed
  qed
qed

lemma cache_sound_initial_state: "cache_sound X initial_state"
  by (simp add: cache_sound_def initial_state_def)

lemma cache_sound_lookup:
  "cache_sound X s \<Longrightarrow> int (text_tokens X t) \<le> target_summary_size p
     \<Longrightarrow> cache s (SummarizeKey t p d m) = None \<or> cache s (SummarizeKey t p d m) = Some t"
  by (cases "cache s (SummarizeKey t p d m)") (auto simp: cache_sound_def)

subsection \<open>The splitter\<close>

lemma concat_split_text_into_sections:
  "concat (split_text_into_sections tok t max_tokens point model) = t"
proof (induction tok t max_tokens point model rule: split_text_into_sections.induct)
  case (1 tok t max_tokens point model)
  show ?case
    by (subst split_text_into_sections.simps) (simp add: 1)
qed

lemma two_sentences_sections:
  "split_text_into_sections length two_sentences 20 ''.'' model_name
     = [''It was a dark night.'', '' It rained.'']"
  by code_simp

text \<open>
  The cut is positive and within the text; when some prefix fits the budget the section
  cut off fits it. With a token for each character and a budget of at least one token
  the cut is greedy: a section and its successor together exceed the budget, so the
  sections are at most about twice as many as the budget goes into the text.
\<close>

lemma le_last_sorted: "sorted xs \<Longrightarrow> x \<in> set xs \<Longrightarrow> x \<le> last xs" for x :: nat
  by (induction xs) auto

lemma le_last_filter_upt:
  assumes "P k" "1 \<le> k" "k \<le> n"
  shows "k \<le> last (filter P [1..<Suc n])"
proof -
  have "sorted (filter P [1..<Suc n])"
    by (rule sorted_wrt_filter) (rule sorted_upt)
  moreover have "k \<in> set (filter P [1..<Suc n])"
    using assms by (simp del: upt_Suc)
  ultimately show ?thesis by (rule le_last_sorted)
qed

lemma boundary_cuts_set:
  "k \<in> set (boundary_cuts tok mx d t) \<longleftrightarrow>
     1 \<le> k \<and> k \<le> length t \<and> (k = length t \<or> (d \<noteq> [] \<and> suffix d (take k t)))
       \<and> int (tok (take k t)) \<le> mx"
  by (auto simp: boundary_cuts_def simp del: upt_Suc)

lemma hard_cuts_set:
  "k \<in> set (hard_cuts tok mx t) \<longleftrightarrow> 1 \<le> k \<and> k \<le> length t \<and> int (tok (take k t)) \<le> mx"
  by (auto simp: hard_cuts_def simp del: upt_Suc)

lemma cut_length_cases:
  "(boundary_cuts tok mx d t \<noteq> [] \<and> cut_length tok mx d t \<in> set (boundary_cuts tok mx d t))
   \<or> (boundary_cuts tok mx d t = [] \<and> hard_cuts tok mx t \<noteq> []
        \<and> cut_length tok mx d t \<in> set (hard_cuts tok mx t))
   \<or> (boundary_cuts tok mx d t = [] \<and> hard_cuts tok mx t = [] \<and> cut_length tok mx d t = 1)"
  by (auto simp: cut_length_def)

lemma cut_length_le_length: "t \<noteq> [] \<Longrightarrow> cut_length tok mx d t \<le> length t"
  using cut_length_cases[of tok mx d t]
  by (cases t) (auto simp: boundary_cuts_set hard_cuts_set)

lemma cut_length_pos: "0 < cut_length tok mx d t"
  using cut_length_cases[of tok mx d t]
  by (auto simp: boundary_cuts_set hard_cuts_set)

lemma cut_length_fits:
  assumes "hard_cuts tok mx t \<noteq> []"
  shows "int (tok (take (cut_length tok mx d t) t)) \<le> mx"
  using cut_length_cases[of tok mx d t] assms
  by (auto simp: boundary_cuts_set hard_cuts_set)

lemma sections_fit:
  assumes "\<And>u. u \<noteq> [] \<Longrightarrow> hard_cuts tok mx u \<noteq> []"
    and "x \<in> set (split_text_into_sections tok t mx d m)"
  shows "int (tok x) \<le> mx"
  using assms
proof (induction tok t mx d m rule: split_text_into_sections.induct)
  case (1 tok t mx d m)
  show ?case
  proof (cases "t = []")
    case True
    with "1.prems"(2) show ?thesis
      by (subst (asm) split_text_into_sections.simps) simp
  next
    case False
    with "1.prems"(2) have "x = take (cut_length tok mx d t) t
        \<or> x \<in> set (split_text_into_sections tok (drop (cut_length tok mx d t) t) mx d m)"
      by (subst (asm) split_text_into_sections.simps) simp
    then show ?thesis
    proof
      assume "x = take (cut_length tok mx d t) t"
      with cut_length_fits[OF "1.prems"(1)[OF False], of d] show ?thesis by simp
    next
      assume "x \<in> set (split_text_into_sections tok (drop (cut_length tok mx d t) t) mx d m)"
      with "1.IH"[OF False "1.prems"(1)] show ?thesis by blast
    qed
  qed
qed

text \<open>With a token for each character and a budget of at least one token.\<close>

lemma hard_cuts_length_nonempty: "1 \<le> mx \<Longrightarrow> u \<noteq> [] \<Longrightarrow> hard_cuts length mx u \<noteq> []"
proof -
  assume "1 \<le> mx" "u \<noteq> []"
  then have "1 \<in> set (hard_cuts length mx u)"
    by (cases u) (auto simp: hard_cuts_set)
  then show ?thesis by auto
qed

lemma boundary_cut_le_cut_length:
  assumes "1 \<le> k" "k \<le> length t" "k = length t \<or> (d \<noteq> [] \<and> suffix d (take k t))" "int k \<le> mx"
  shows "k \<le> cut_length length mx d t"
proof -
  let ?P = "\<lambda>k. (k = length t \<or> (d \<noteq> [] \<and> suffix d (take k t))) \<and> int (length (take k t)) \<le> mx"
  have P: "?P k" using assms by simp
  from le_last_filter_upt[of ?P k "length t", OF P assms(1,2)]
  have le: "k \<le> last (boundary_cuts length mx d t)"
    by (simp add: boundary_cuts_def)
  have "k \<in> set (boundary_cuts length mx d t)"
    using P assms(1,2) by (simp add: boundary_cuts_set)
  then have "boundary_cuts length mx d t \<noteq> []" by auto
  with le show ?thesis by (simp add: cut_length_def)
qed

lemma hard_cut_le_cut_length:
  assumes "boundary_cuts length mx d t = []" "1 \<le> k" "k \<le> length t" "int k \<le> mx"
  shows "k \<le> cut_length length mx d t"
proof -
  let ?P = "\<lambda>k. int (length (take k t)) \<le> mx"
  have P: "?P k" using assms by simp
  from le_last_filter_upt[of ?P k "length t", OF P assms(2,3)]
  have le: "k \<le> last (hard_cuts length mx t)"
    by (simp add: hard_cuts_def)
  have "k \<in> set (hard_cuts length mx t)"
    using P assms(2,3) by (simp add: hard_cuts_set)
  then have "hard_cuts length mx t \<noteq> []" by auto
  with le assms(1) show ?thesis by (simp add: cut_length_def)
qed

lemma cut_length_greedy:
  assumes "1 \<le> mx" "t \<noteq> []" "drop (cut_length length mx d t) t \<noteq> []"
  shows "mx < int (cut_length length mx d t
     + cut_length length mx d (drop (cut_length length mx d t) t))"
proof (rule ccontr)
  let ?c = "cut_length length mx d t"
  let ?rest = "drop ?c t"
  let ?c' = "cut_length length mx d ?rest"
  assume "\<not> mx < int (?c + ?c')"
  then have small: "int (?c + ?c') \<le> mx" by simp
  have c: "0 < ?c" "?c \<le> length t"
    using cut_length_pos[of length mx d t] cut_length_le_length[OF assms(2), of length mx d] by simp_all
  have c': "0 < ?c'" "?c' \<le> length ?rest"
    using cut_length_pos[of length mx d ?rest] cut_length_le_length[OF assms(3), of length mx d]
    by simp_all
  have len: "?c + ?c' \<le> length t" using c c' by simp
  show False
  proof (cases "boundary_cuts length mx d ?rest = []")
    case False
    then have "?c' \<in> set (boundary_cuts length mx d ?rest)"
      using cut_length_cases[of length mx d ?rest] by simp
    then have "?c' = length ?rest \<or> (d \<noteq> [] \<and> suffix d (take ?c' ?rest))"
      by (simp add: boundary_cuts_set)
    then have "?c + ?c' = length t \<or> (d \<noteq> [] \<and> suffix d (take (?c + ?c') t))"
      using c by (auto simp: take_add suffix_appendI)
    from boundary_cut_le_cut_length[OF _ len this small] c c' show False
      by simp
  next
    case True
    have "\<not> int (length ?rest) \<le> mx"
    proof
      assume "int (length ?rest) \<le> mx"
      with assms(3) have "length ?rest \<in> set (boundary_cuts length mx d ?rest)"
        by (simp add: boundary_cuts_set Suc_le_eq del: length_drop)
      with True show False by simp
    qed
    then have "nat mx \<le> length ?rest" "1 \<le> nat mx" "int (nat mx) \<le> mx"
      using assms(1) by simp_all
    from hard_cut_le_cut_length[OF True this(2,1,3)] small c show False
      by simp
  qed
qed

lemma split_text_into_sections_Nil:
  "split_text_into_sections tok [] mx d m = []"
  by (subst split_text_into_sections.simps) simp

lemma split_text_into_sections_Cons:
  "t \<noteq> [] \<Longrightarrow> split_text_into_sections tok t mx d m
     = take (cut_length tok mx d t) t
       # split_text_into_sections tok (drop (cut_length tok mx d t) t) mx d m"
  by (subst split_text_into_sections.simps) simp

lemma sections_count:
  assumes "1 \<le> mx"
  shows "mx * int (length (split_text_into_sections length t mx d m) div 2) \<le> int (length t)"
proof (induction t rule: measure_induct_rule[where f = length])
  case (less t)
  define c where "c = cut_length length mx d t"
  define rest where "rest = drop c t"
  define c' where "c' = cut_length length mx d rest"
  define rest' where "rest' = drop c' rest"
  show ?case
  proof (cases "t = []")
    case True
    then show ?thesis
      by (simp add: split_text_into_sections_Nil)
  next
    case False
    then have one: "split_text_into_sections length t mx d m
        = take c t # split_text_into_sections length rest mx d m"
      unfolding c_def rest_def by (rule split_text_into_sections_Cons)
    show ?thesis
    proof (cases "rest = []")
      case True
      then have "length (split_text_into_sections length t mx d m) = 1"
        unfolding one by (simp add: split_text_into_sections_Nil)
      then show ?thesis by simp
    next
      case rest: False
      then have two: "split_text_into_sections length rest mx d m
          = take c' rest # split_text_into_sections length rest' mx d m"
        unfolding c'_def rest'_def by (rule split_text_into_sections_Cons)
      have c: "c \<le> length t"
        unfolding c_def using False by (rule cut_length_le_length)
      have c'1: "c' \<le> length rest"
        unfolding c'_def using rest by (rule cut_length_le_length)
      have c'2: "0 < c'"
        unfolding c'_def by (rule cut_length_pos)
      have lr: "length rest = length t - c" by (simp add: rest_def)
      have lr': "length rest' = length rest - c'" by (simp add: rest'_def)
      have "length rest' < length t"
        using c c'1 c'2 lr lr' rest by (cases rest) simp_all
      from less.IH[OF this]
      have ih: "mx * int (length (split_text_into_sections length rest' mx d m) div 2)
          \<le> int (length rest')" .
      have len: "int (length t) = int (c + c') + int (length rest')"
        using c c'1 lr lr' by simp
      have greedy: "mx < int (c + c')"
        unfolding c_def c'_def rest_def
        by (rule cut_length_greedy[OF assms False]) (use rest in \<open>simp add: rest_def c_def\<close>)
      have "length (split_text_into_sections length t mx d m)
          = Suc (Suc (length (split_text_into_sections length rest' mx d m)))"
        unfolding one two by simp
      then have "mx * int (length (split_text_into_sections length t mx d m) div 2)
          = mx + mx * int (length (split_text_into_sections length rest' mx d m) div 2)"
        by (simp add: algebra_simps)
      with ih greedy len show ?thesis
        by linarith
    qed
  qed
qed

lemma length_join_le:
  "\<forall>y\<in>set ys. length y \<le> b \<Longrightarrow> length (join sep ys) \<le> (b + length sep) * length ys"
  by (induction sep ys rule: join.induct) (auto simp: algebra_simps)

subsection \<open>Depth of the recursion\<close>

lemma summarize_terminal:
  assumes "int (text_tokens X t) \<le> target_summary_size p \<or> int (text_tokens X t) \<le> summary_input_size p"
  shows "\<exists>r. summarize (Suc n) X t p d m s = Some r"
  using assms
  by (auto simp: memoize_defs summarize_body_def split: option.splits sum.splits prod.splits)

text \<open>More depth never changes a result.\<close>

lemma summarize_each_mono:
  assumes "\<And>x s r. f x s = Some r \<Longrightarrow> g x s = Some r"
    and "summarize_each f xs s = Some r"
  shows "summarize_each g xs s = Some r"
  using assms(2)
proof (induction xs arbitrary: s r)
  case Nil
  then show ?case by simp
next
  case (Cons x xs)
  from Cons.prems obtain r1 s1 where first: "f x s = Some (r1, s1)"
    by (auto split: option.splits)
  then have first': "g x s = Some (r1, s1)" by (rule assms(1))
  show ?case
  proof (cases r1)
    case (Inl e)
    with Cons.prems first first' show ?thesis by simp
  next
    case (Inr y)
    with Cons.prems first obtain r2 where rest: "summarize_each f xs s1 = Some r2"
      by (auto split: option.splits)
    from Cons.IH[OF rest] Cons.prems first first' Inr rest show ?thesis
      by simp
  qed
qed

lemma summarize_body_mono:
  assumes "\<And>x s r. f x p d m s = Some r \<Longrightarrow> g x p d m s = Some r"
    and "summarize_body X f t p d m s = Some r"
  shows "summarize_body X g t p d m s = Some r"
proof (cases "int (text_tokens X t) \<le> target_summary_size p \<or> int (text_tokens X t) \<le> summary_input_size p")
  case True
  with assms(2) show ?thesis
    by (auto simp: summarize_body_def)
next
  case False
  let ?segs = "sections X t (summary_input_size p) d m"
  from False assms(2) obtain r1 s1 where each: "summarize_each (\<lambda>x. f x p d m) ?segs s = Some (r1, s1)"
    by (auto simp: summarize_body_def split: option.splits)
  have each': "summarize_each (\<lambda>x. g x p d m) ?segs s = Some (r1, s1)"
    by (rule summarize_each_mono[OF _ each]) (rule assms(1))
  show ?thesis
  proof (cases r1)
    case (Inl e)
    with False assms(2) each each' show ?thesis
      by (simp add: summarize_body_def)
  next
    case (Inr ys)
    with False assms(2) each have "f (join (newline @ newline) ys) p d m s1 = Some r"
      by (simp add: summarize_body_def)
    then have "g (join (newline @ newline) ys) p d m s1 = Some r"
      by (rule assms(1))
    with False each' Inr show ?thesis
      by (simp add: summarize_body_def)
  qed
qed

lemma memoize_to_file_mono:
  assumes "\<And>r. f s = Some r \<Longrightarrow> g s = Some r" and "memoize_to_file lookup store f s = Some r"
  shows "memoize_to_file lookup store g s = Some r"
proof (cases "lookup s")
  case (Some v)
  with assms(2) show ?thesis by (simp add: memoize_to_file_def)
next
  case None
  with assms(2) obtain r1 where "f s = Some r1"
    by (auto simp: memoize_to_file_def split: option.splits)
  with assms(1)[OF this] None assms(2) show ?thesis
    by (simp add: memoize_to_file_def)
qed

lemma summarize_Suc_mono:
  "summarize n X t p d m s = Some r \<Longrightarrow> summarize (Suc n) X t p d m s = Some r"
proof (induction n arbitrary: t s r)
  case 0
  then show ?case by simp
next
  case (Suc n)
  let ?key = "SummarizeKey t p d m"
  have "memoize_to_file (summarize_entry ?key) (store_summarize_entry ?key)
      (summarize_body X (summarize (Suc n) X) t p d m) s = Some r"
  proof (rule memoize_to_file_mono)
    show "memoize_to_file (summarize_entry ?key) (store_summarize_entry ?key)
        (summarize_body X (summarize n X) t p d m) s = Some r"
      using Suc.prems by simp
  next
    fix r1 assume "summarize_body X (summarize n X) t p d m s = Some r1"
    then show "summarize_body X (summarize (Suc n) X) t p d m s = Some r1"
      by (rule summarize_body_mono[rotated]) (rule Suc.IH)
  qed
  then show ?case by simp
qed

lemma summarize_mono:
  assumes "summarize n X t p d m s = Some r" and "n \<le> n'"
  shows "summarize n' X t p d m s = Some r"
  using assms(2,1)
proof (induction rule: dec_induct)
  case base
  then show ?case .
next
  case (step k)
  from step.IH[OF step.prems] show ?case
    by (rule summarize_Suc_mono)
qed

text \<open>
  When the replies of the model are within the target size and the cache holds such
  values only, so is every value that \<^verbatim>\<open>summarize\<close> returns, and the cache stays so.
\<close>

lemma summarize_each_within:
  assumes f: "\<And>x s r s'. cache_within X p d m s \<Longrightarrow> f x s = Some (r, s')
      \<Longrightarrow> cache_within X p d m s' \<and> (\<forall>v. r = Inr v \<longrightarrow> int (text_tokens X v) \<le> target_summary_size p)"
    and "cache_within X p d m s" and "summarize_each f xs s = Some (r, s')"
  shows "cache_within X p d m s' \<and>
    (\<forall>ys. r = Inr ys \<longrightarrow> length ys = length xs
       \<and> (\<forall>y\<in>set ys. int (text_tokens X y) \<le> target_summary_size p))"
  using assms(2,3)
proof (induction xs arbitrary: s r s')
  case Nil
  then show ?case by auto
next
  case (Cons x xs)
  from Cons.prems(2) obtain r1 s1 where first: "f x s = Some (r1, s1)"
    by (auto split: option.splits)
  from f[OF Cons.prems(1) first] have s1: "cache_within X p d m s1"
    and r1: "\<forall>v. r1 = Inr v \<longrightarrow> int (text_tokens X v) \<le> target_summary_size p"
    by simp_all
  show ?case
  proof (cases r1)
    case (Inl e)
    with Cons.prems(2) first s1 show ?thesis by auto
  next
    case (Inr y)
    with Cons.prems(2) first obtain r2 s2 where rest: "summarize_each f xs s1 = Some (r2, s2)"
      by (auto split: option.splits)
    from Cons.IH[OF s1 rest] Cons.prems(2) first Inr rest r1 show ?thesis
      by (auto split: sum.splits)
  qed
qed

lemma summarize_within:
  assumes replies: "\<And>i model messages reply rest used.
      create X i model messages = Inr (ChatCompletion (Some reply # rest) used)
      \<Longrightarrow> int (text_tokens X (''[[['' @ reply @ '']]]'')) \<le> target_summary_size p"
    and "cache_within X p d m s" and "summarize n X t p d m s = Some (r, s')"
  shows "cache_within X p d m s' \<and> (\<forall>v. r = Inr v \<longrightarrow> int (text_tokens X v) \<le> target_summary_size p)"
  using assms(2,3)
proof (induction n arbitrary: t s r s')
  case 0
  then show ?case by simp
next
  case (Suc n)
  let ?key = "SummarizeKey t p d m"
  let ?body = "summarize_body X (summarize n X) t p d m s"
  show ?case
  proof (cases "cache s ?key")
    case (Some v)
    with Suc.prems show ?thesis
      by (auto simp: memoize_defs cache_within_def)
  next
    case None
    with Suc.prems(2) obtain r1 s1 where body: "?body = Some (r1, s1)"
      by (auto simp: memoize_defs split: option.splits)
    have inner: "cache_within X p d m s1
        \<and> (\<forall>v. r1 = Inr v \<longrightarrow> int (text_tokens X v) \<le> target_summary_size p)"
    proof -
      consider (short) "int (text_tokens X t) \<le> target_summary_size p"
        | (medium) "\<not> int (text_tokens X t) \<le> target_summary_size p"
            "int (text_tokens X t) \<le> summary_input_size p"
        | (long) "\<not> int (text_tokens X t) \<le> target_summary_size p"
            "\<not> int (text_tokens X t) \<le> summary_input_size p"
        by blast
      then show ?thesis
      proof cases
        case short
        with body Suc.prems(1) show ?thesis
          by (auto simp: summarize_body_def)
      next
        case medium
        with body have run: "gpt_summarize_loop X t (target_summary_size p) 0 s = (r1, s1)"
          by (simp add: summarize_body_def gpt_summarize_def)
        have "cache s1 = cache s"
          using gpt_summarize_loop_cache[of X t "target_summary_size p" 0 s] run by simp
        with Suc.prems(1) have "cache_within X p d m s1"
          by (simp add: cache_within_def)
        moreover have "int (text_tokens X v) \<le> target_summary_size p" if "r1 = Inr v" for v
        proof -
          from run that have "gpt_summarize_loop X t (target_summary_size p) 0 s = (Inr v, s1)"
            by simp
          from gpt_summarize_loop_returns[OF this] obtain reply rest used where
            "create X (api_calls s1 - 1) ''gpt-3.5-turbo-1106'' (prompt_messages X t (target_summary_size p))
               = Inr (ChatCompletion (Some reply # rest) (Some used))"
            and "v = ''[[['' @ reply @ '']]]''"
            by blast
          with replies show ?thesis by simp
        qed
        ultimately show ?thesis
          by blast
      next
        case long
        let ?each = "summarize_each (\<lambda>x. summarize n X x p d m)
            (sections X t (summary_input_size p) d m) s"
        from long body obtain r2 s2 where each: "?each = Some (r2, s2)"
          by (auto simp: summarize_body_def split: option.splits)
        have s2: "cache_within X p d m s2"
          using summarize_each_within[OF _ Suc.prems(1) each] Suc.IH by blast
        show ?thesis
        proof (cases r2)
          case (Inl e)
          with long body each s2 show ?thesis
            by (auto simp: summarize_body_def)
        next
          case (Inr ys)
          with long body each
          have "summarize n X (join (newline @ newline) ys) p d m s2 = Some (r1, s1)"
            by (simp add: summarize_body_def)
          from Suc.IH[OF s2 this] show ?thesis .
        qed
      qed
    qed
    show ?thesis
    proof (cases r1)
      case (Inl e)
      with None Suc.prems(2) body inner show ?thesis
        by (auto simp: memoize_defs)
    next
      case (Inr v)
      with None Suc.prems(2) body have "s' = s1\<lparr>cache := (cache s1)(?key \<mapsto> v)\<rparr>" "r = Inr v"
        by (simp_all add: memoize_defs)
      with inner Inr show ?thesis
        by (auto simp: cache_within_def)
    qed
  qed
qed

lemma summarize_each_terminal:
  assumes "\<forall>x\<in>set xs. int (text_tokens X x) \<le> target_summary_size p
      \<or> int (text_tokens X x) \<le> summary_input_size p"
  shows "\<exists>r. summarize_each (\<lambda>x. summarize (Suc n) X x p d m) xs s = Some r"
  using assms
proof (induction xs arbitrary: s)
  case Nil
  then show ?case by simp
next
  case (Cons x xs)
  from Cons.prems have "int (text_tokens X x) \<le> target_summary_size p
      \<or> int (text_tokens X x) \<le> summary_input_size p"
    by simp
  from summarize_terminal[OF this] obtain r1 s1 where
    first: "summarize (Suc n) X x p d m s = Some (r1, s1)"
    by fastforce
  from Cons.IH[of s1] Cons.prems obtain r2 where
    rest: "summarize_each (\<lambda>x. summarize (Suc n) X x p d m) xs s1 = Some r2"
    by auto
  show ?case
    using first rest by (cases r1; cases r2; cases "fst r2") (auto simp del: summarize.simps)
qed

text \<open>The sample with the short replies meets the conditions of termination.\<close>

lemma terse_replies:
  "create (sample_externals terse) i model messages = Inr (ChatCompletion (Some reply # rest) used)
     \<Longrightarrow> int (text_tokens (sample_externals terse) (''[[['' @ reply @ '']]]''))
       \<le> target_summary_size roomy_parameters"
  by (auto simp: terse_def)

lemma roomy_sections_fit:
  "x \<in> set (sections (sample_externals api) t (summary_input_size roomy_parameters) d m)
     \<Longrightarrow> int (text_tokens (sample_externals api) x) \<le> summary_input_size roomy_parameters"
  using sections_fit[of length 100 x t d m] hard_cuts_length_nonempty[of 100]
  by simp

lemma roomy_join_shrinks:
  assumes "summary_input_size roomy_parameters < int (text_tokens (sample_externals api) t)"
    and "length ys = length (sections (sample_externals api) t (summary_input_size roomy_parameters) d m)"
    and "\<forall>y\<in>set ys. int (text_tokens (sample_externals api) y) \<le> target_summary_size roomy_parameters"
  shows "text_tokens (sample_externals api) (join (newline @ newline) ys)
     < text_tokens (sample_externals api) t"
proof -
  let ?k = "length (split_text_into_sections length t 100 d m)"
  have big: "100 < length t" using assms(1) by simp
  have k: "length ys = ?k" using assms(2) by simp
  have "\<forall>y\<in>set ys. length y \<le> 10" using assms(3) by simp
  from length_join_le[OF this, of "newline @ newline"]
  have join: "length (join (newline @ newline) ys) \<le> 12 * ?k"
    by (simp add: newline_def k)
  from sections_count[of 100 t d m] have count: "100 * (?k div 2) \<le> length t"
    by linarith
  have "12 * ?k < length t"
  proof (cases "?k < 2")
    case True
    with big show ?thesis by linarith
  next
    case False
    then have "12 * ?k < 100 * (?k div 2)" by linarith
    with count show ?thesis by linarith
  qed
  with join show ?thesis by simp
qed

lemma cache_within_initial_state: "cache_within X p d m initial_state"
  by (simp add: cache_within_def initial_state_def)

lemma terse_gpt_summarize:
  "gpt_summarize (sample_externals terse) t tss s =
     (Inr ''[[[ok]]]'',
      s\<lparr>api_calls := Suc (api_calls s), actual_tokens := actual_tokens s + 7\<rparr>)"
  by (simp add: gpt_summarize_def gpt_summarize_loop_unfold terse_def)

lemma long_text_sections:
  "split_text_into_sections length long_text 100 ''.'' model_name =
     [''It was a dark night. It rained.It was a dark night. It rained.It was a dark night. It rained.'',
      ''It was a dark night. It rained.'']"
  by code_simp

lemma long_text_length: "length long_text = 124"
  by (simp add: long_text_def)

lemma terse_run:
  "map_option fst (summarize 3 (sample_externals terse) long_text roomy_parameters ''.'' model_name
     initial_state) = Some (Inr ''[[[ok]]]'')"
  by (simp add: numeral_3_eq_3 memoize_defs summarize_body_def terse_gpt_summarize
      long_text_sections long_text_length newline_def initial_state_def)

text \<open>
  The sample with the long replies: no summary is shorter than its section, so the
  joined summaries are never shorter than the text.
\<close>

lemma length_concat_le_join: "length (concat ys) \<le> length (join sep ys)"
  by (induction sep ys rule: join.induct) simp_all

lemma never_shorter_store:
  "never_shorter d m s \<Longrightarrow> length t \<le> 20 \<Longrightarrow> length t \<le> length v
     \<Longrightarrow> never_shorter d m (s\<lparr>cache := (cache s)(SummarizeKey t sample_parameters d m \<mapsto> v)\<rparr>)"
  by (auto simp: never_shorter_def)

lemma summarize_each_never_shorter:
  assumes f: "\<And>x s r s'. never_shorter d m s \<Longrightarrow> f x s = Some (r, s')
      \<Longrightarrow> (\<exists>v. r = Inr v \<and> length x \<le> length v) \<and> never_shorter d m s'"
    and "never_shorter d m s" and "summarize_each f xs s = Some (r, s')"
  shows "(\<exists>ys. r = Inr ys \<and> length (concat xs) \<le> length (concat ys)) \<and> never_shorter d m s'"
  using assms(2,3)
proof (induction xs arbitrary: s r s')
  case Nil
  then show ?case by auto
next
  case (Cons x xs)
  from Cons.prems(2) obtain r1 s1 where first: "f x s = Some (r1, s1)"
    by (auto split: option.splits)
  from f[OF Cons.prems(1) first] obtain y where y: "r1 = Inr y" "length x \<le> length y"
    and s1: "never_shorter d m s1"
    by blast
  from Cons.prems(2) first y obtain r2 s2 where rest: "summarize_each f xs s1 = Some (r2, s2)"
    by (auto split: option.splits)
  from Cons.IH[OF s1 rest] obtain ys where ys: "r2 = Inr ys" "length (concat xs) \<le> length (concat ys)"
    and s2: "never_shorter d m s2"
    by blast
  from Cons.prems(2) first y rest ys have "r = Inr (y # ys)" "s' = s2"
    by auto
  with y ys s2 show ?case by auto
qed

lemma verbose_gpt_summarize:
  "gpt_summarize (sample_externals verbose) t tss s =
     (Inr ''[[[The book is long.]]]'',
      s\<lparr>api_calls := Suc (api_calls s), actual_tokens := actual_tokens s + 40\<rparr>)"
  by (simp add: gpt_summarize_def gpt_summarize_loop_unfold verbose_def)

lemma verbose_summarize_never_shorter:
  assumes "never_shorter d m s"
    and "summarize n (sample_externals verbose) t sample_parameters d m s = Some (r, s')"
  shows "(\<exists>v. r = Inr v \<and> length t \<le> length v) \<and> length t \<le> 20 \<and> never_shorter d m s'"
  using assms
proof (induction n arbitrary: t s r s')
  case 0
  then show ?case by simp
next
  case (Suc n)
  let ?key = "SummarizeKey t sample_parameters d m"
  let ?X = "sample_externals verbose"
  show ?case
  proof (cases "cache s ?key")
    case (Some v)
    with Suc.prems show ?thesis
      by (auto simp: memoize_defs never_shorter_def)
  next
    case None
    with Suc.prems(2) obtain v s1 where
      body: "summarize_body ?X (summarize n ?X) t sample_parameters d m s = Some (Inr v, s1) \<and> r = Inr v
          \<and> s' = s1\<lparr>cache := (cache s1)(?key \<mapsto> v)\<rparr>
        \<or> summarize_body ?X (summarize n ?X) t sample_parameters d m s = Some (r, s') \<and> isl r"
      by (auto simp: memoize_defs split: option.splits sum.splits)
    consider (short) "length t \<le> 10" | (medium) "10 < length t" "length t \<le> 20" | (long) "20 < length t"
      by linarith
    then show ?thesis
    proof cases
      case short
      with body Suc.prems(1) show ?thesis
        by (auto simp: summarize_body_def intro!: never_shorter_store)
    next
      case medium
      have "never_shorter d m (s\<lparr>api_calls := Suc (api_calls s), actual_tokens := actual_tokens s + 40\<rparr>)"
        using Suc.prems(1) by (simp add: never_shorter_def)
      with medium body show ?thesis
        by (auto simp: summarize_body_def verbose_gpt_summarize intro!: never_shorter_store)
    next
      case long
      let ?segs = "split_text_into_sections length t 20 d m"
      let ?each = "summarize_each (\<lambda>x. summarize n ?X x sample_parameters d m) ?segs s"
      from long have body_eq: "summarize_body ?X (summarize n ?X) t sample_parameters d m s =
         (case ?each of
              None \<Rightarrow> None
            | Some (Inl e, s1) \<Rightarrow> Some (Inl e, s1)
            | Some (Inr summaries, s1) \<Rightarrow>
                summarize n ?X (join (newline @ newline) summaries) sample_parameters d m s1)"
        by (simp add: summarize_body_def)
      from body have "summarize_body ?X (summarize n ?X) t sample_parameters d m s \<noteq> None"
        by auto
      with body_eq obtain r1 s1 where each: "?each = Some (r1, s1)"
        by (auto split: option.splits)
      have "(\<exists>ys. r1 = Inr ys \<and> length (concat ?segs) \<le> length (concat ys)) \<and> never_shorter d m s1"
        by (rule summarize_each_never_shorter[OF _ Suc.prems(1) each]) (use Suc.IH in blast)
      then obtain ys where ys: "r1 = Inr ys" "length (concat ?segs) \<le> length (concat ys)"
        and s1: "never_shorter d m s1"
        by blast
      from body body_eq each ys obtain r2 s2 where
        again: "summarize n ?X (join (newline @ newline) ys) sample_parameters d m s1 = Some (r2, s2)"
        by auto
      from Suc.IH[OF s1 again] have "length (join (newline @ newline) ys) \<le> 20"
        by simp
      moreover have "length t \<le> length (join (newline @ newline) ys)"
        using ys(2) length_concat_le_join[of ys "newline @ newline"]
        by (simp add: concat_split_text_into_sections)
      ultimately show ?thesis
        using long by simp
    qed
  qed
qed

subsection \<open>Claims about summarize\<close>

text \<open>The sample run in which the provider fails once: one retry, then the wrapped reply.\<close>

lemma fails_once_summarize:
  "summarize (Suc n) (sample_externals fails_once) one_sentence sample_parameters ''.'' model_name
     initial_state =
   Some (Inr ''[[[A summary.]]]'',
     \<lparr>actual_tokens = 50,
      cache = [SummarizeKey one_sentence sample_parameters ''.'' model_name \<mapsto> ''[[[A summary.]]]''],
      synthesis_cache = Map.empty, api_calls = 2, sleeps = [3]\<rparr>)"
  by (simp add: memoize_defs summarize_body_def gpt_summarize_def gpt_summarize_loop_unfold
      fails_once_def transient_def caught_def MAX_ATTEMPTS_def retry_state_def initial_state_def)

text \<open>
  Claim C5. For a text of at most \<open>target_summary_size\<close> tokens \<^verbatim>\<open>summarize\<close> returns
  the text unchanged and invokes the model not at all: the counters of invocations, of
  tokens and the sleeps are as before. The cache is consulted first, so the statement
  needs that it holds nothing else for this call; \<open>cache_sound\<close>, which every call
  keeps and the empty cache has, gives that (\<open>cache_sound_lookup\<close>).
\<close>

theorem summarize_short_text:
  assumes "int (text_tokens X t) \<le> target_summary_size p"
    and "cache s (SummarizeKey t p d m) = None \<or> cache s (SummarizeKey t p d m) = Some t"
  shows "\<exists>s'. summarize (Suc n) X t p d m s = Some (Inr t, s')
     \<and> api_calls s' = api_calls s \<and> actual_tokens s' = actual_tokens s \<and> sleeps s' = sleeps s"
  using assms
  by (auto simp: memoize_defs summarize_body_def)

theorem summarize_short_text_witness:
  "int (text_tokens (sample_externals rate_limited) short_text) \<le> target_summary_size sample_parameters
   \<and> cache initial_state (SummarizeKey short_text sample_parameters ''.'' model_name) = None
   \<and> map_option fst (summarize 1 (sample_externals rate_limited) short_text sample_parameters ''.''
        model_name initial_state) = Some (Inr short_text)
   \<and> map_option (api_calls \<circ> snd) (summarize 1 (sample_externals rate_limited) short_text
        sample_parameters ''.'' model_name initial_state) = Some (api_calls initial_state)"
proof -
  have h1: "int (text_tokens (sample_externals rate_limited) short_text)
      \<le> target_summary_size sample_parameters"
    by simp
  have h2: "cache initial_state (SummarizeKey short_text sample_parameters ''.'' model_name) = None"
    by (simp add: initial_state_def)
  from summarize_short_text[OF h1 disjI1[OF h2], of 0] h1 h2 show ?thesis
    by auto
qed

text \<open>
  Claim C2, as the specification states it: a text of more than \<open>target_summary_size\<close>
  and at most \<open>summary_input_size\<close> tokens costs exactly one invocation of the model, and
  the value returned contains neither marker. Both parts fail: with a provider whose
  first attempt is rate-limited, the text of 20 characters costs two invocations, and
  the value returned contains both markers.
\<close>

theorem summarize_medium_text_counterexample:
  "target_summary_size sample_parameters < int (text_tokens (sample_externals fails_once) one_sentence)
   \<and> int (text_tokens (sample_externals fails_once) one_sentence) \<le> summary_input_size sample_parameters
   \<and> api_calls initial_state = 0
   \<and> map_option fst (summarize 1 (sample_externals fails_once) one_sentence sample_parameters ''.''
        model_name initial_state) = Some (Inr ''[[[A summary.]]]'')
   \<and> map_option (api_calls \<circ> snd) (summarize 1 (sample_externals fails_once) one_sentence
        sample_parameters ''.'' model_name initial_state) = Some 2
   \<and> sublist ''[[['' ''[[[A summary.]]]'' \<and> sublist '']]]'' ''[[[A summary.]]]''"
  using fails_once_summarize[of 0] markers_present[of "''A summary.''"]
  by (simp add: initial_state_def)

text \<open>
  Claim C2, amended. For a text of more than \<open>target_summary_size\<close> and at most
  \<open>summary_input_size\<close> tokens whose result is not in the cache, \<^verbatim>\<open>summarize\<close> hands the
  text to \<^verbatim>\<open>gpt_summarize\<close> and returns or raises as it does:

  \<^item> it makes at least one and at most three invocations of the model; every invocation
    but the last failed with a transient error, and there is exactly one invocation
    unless the first fails with a transient error;

  \<^item> if the last invocation raised, the call raises that exception;

  \<^item> if the last invocation returned a completion whose first choice has a text (and
    which has a usage record), the call returns this text between the markers
    \<^verbatim>\<open>[[[\<close> and \<^verbatim>\<open>]]]\<close> and the cache has this value for the call. A call that returns
    is of this kind: the value it returns is the reply of the last invocation between
    the markers, which are part of the value (the script removes them from the final
    result only);

  \<^item> if the completion has no usage record, no choice, or no text in its first choice,
    the call raises \<^verbatim>\<open>AttributeError\<close>, \<^verbatim>\<open>IndexError\<close> or \<^verbatim>\<open>TypeError\<close>.
\<close>

theorem summarize_medium_text:
  assumes "target_summary_size p < int (text_tokens X t)"
    and "int (text_tokens X t) \<le> summary_input_size p"
    and "cache s (SummarizeKey t p d m) = None"
  shows "\<exists>r s'. summarize (Suc n) X t p d m s = Some (r, s')
     \<and> api_calls s < api_calls s' \<and> api_calls s' \<le> api_calls s + MAX_ATTEMPTS
     \<and> (\<forall>i. api_calls s \<le> i \<and> i < api_calls s' - 1
           \<longrightarrow> (\<exists>e. create X i ''gpt-3.5-turbo-1106'' (prompt_messages X t (target_summary_size p)) = Inl e
                  \<and> transient e))
     \<and> ((\<exists>e. create X (api_calls s) ''gpt-3.5-turbo-1106'' (prompt_messages X t (target_summary_size p)) = Inl e
            \<and> transient e)
          \<or> api_calls s' = api_calls s + 1)
     \<and> (\<forall>e. create X (api_calls s' - 1) ''gpt-3.5-turbo-1106'' (prompt_messages X t (target_summary_size p)) = Inl e
           \<longrightarrow> r = Inl e)
     \<and> (\<forall>replies used. create X (api_calls s' - 1) ''gpt-3.5-turbo-1106'' (prompt_messages X t (target_summary_size p))
               = Inr (ChatCompletion replies used)
           \<longrightarrow> (case used of
                  None \<Rightarrow> r = Inl (Exception AttributeError None)
                | Some k \<Rightarrow>
                    (case replies of
                       [] \<Rightarrow> r = Inl (Exception IndexError None)
                     | None # rest \<Rightarrow> r = Inl (Exception TypeError None)
                     | Some reply # rest \<Rightarrow> r = Inr (''[[['' @ reply @ '']]]'')
                         \<and> cache s' (SummarizeKey t p d m) = Some (''[[['' @ reply @ '']]]''))))
     \<and> (\<forall>v. r = Inr v
           \<longrightarrow> (\<exists>reply rest k. create X (api_calls s' - 1) ''gpt-3.5-turbo-1106''
                      (prompt_messages X t (target_summary_size p))
                    = Inr (ChatCompletion (Some reply # rest) (Some k))
                  \<and> v = ''[[['' @ reply @ '']]]''
                  \<and> sublist ''[[['' v \<and> sublist '']]]'' v))"
proof -
  let ?call = "\<lambda>i. create X i ''gpt-3.5-turbo-1106'' (prompt_messages X t (target_summary_size p))"
  obtain r s1 where run: "gpt_summarize_loop X t (target_summary_size p) 0 s = (r, s1)"
    by (cases "gpt_summarize_loop X t (target_summary_size p) 0 s")
  have "0 < MAX_ATTEMPTS" by (simp add: MAX_ATTEMPTS_def)
  from gpt_summarize_loop_retries[OF run this]
  obtain k where k: "k < MAX_ATTEMPTS" "api_calls s1 = api_calls s + k + 1"
    "\<forall>j<k. \<exists>e. ?call (api_calls s + j) = Inl e \<and> transient e"
    by auto
  from k(1,2) have calls: "api_calls s < api_calls s1" "api_calls s1 \<le> api_calls s + MAX_ATTEMPTS"
    by simp_all
  have before: "\<exists>e. ?call i = Inl e \<and> transient e"
    if "api_calls s \<le> i \<and> i < api_calls s1 - 1" for i
  proof -
    from that have "api_calls s \<le> i" "i < api_calls s1 - 1" by simp_all
    with k(2) have "i - api_calls s < k" "api_calls s + (i - api_calls s) = i" by simp_all
    with k(3) show ?thesis by metis
  qed
  have first: "(\<exists>e. ?call (api_calls s) = Inl e \<and> transient e) \<or> api_calls s1 = api_calls s + 1"
  proof (cases k)
    case 0
    with k(2) show ?thesis by simp
  next
    case (Suc j)
    with k(3)[rule_format, of 0] show ?thesis by simp
  qed
  from gpt_summarize_loop_result[OF run]
  have last: "case ?call (api_calls s1 - 1) of
         Inr c \<Rightarrow> r = completion_result c
                   \<and> actual_tokens s1 = actual_tokens s + completion_tokens c
       | Inl e \<Rightarrow> r = Inl e \<and> actual_tokens s1 = actual_tokens s"
    by simp
  have raised: "r = Inl e" if "?call (api_calls s1 - 1) = Inl e" for e
    using last that by simp
  have cache1: "cache s1 = cache s"
    using gpt_summarize_loop_cache[of X t "target_summary_size p" 0 s] run by simp
  have body: "summarize_body X (summarize n X) t p d m s = Some (r, s1)"
    using assms(1,2) run by (simp add: summarize_body_def gpt_summarize_def)
  show ?thesis
  proof (cases r)
    case (Inl e)
    with body assms(3) have out: "summarize (Suc n) X t p d m s = Some (r, s1)"
      by (simp add: memoize_defs)
    have answered: "case used of
           None \<Rightarrow> r = Inl (Exception AttributeError None)
         | Some k \<Rightarrow>
             (case replies of
                [] \<Rightarrow> r = Inl (Exception IndexError None)
              | None # rest \<Rightarrow> r = Inl (Exception TypeError None)
              | Some reply # rest \<Rightarrow> r = Inr (''[[['' @ reply @ '']]]'')
                  \<and> cache s1 (SummarizeKey t p d m) = Some (''[[['' @ reply @ '']]]''))"
      if "?call (api_calls s1 - 1) = Inr (ChatCompletion replies used)" for replies used
      using last that Inl
      by (auto simp: completion_result_def split: option.splits list.splits)
    have returned: "\<forall>v. r = Inr v
           \<longrightarrow> (\<exists>reply rest k. ?call (api_calls s1 - 1)
                    = Inr (ChatCompletion (Some reply # rest) (Some k))
                  \<and> v = ''[[['' @ reply @ '']]]''
                  \<and> sublist ''[[['' v \<and> sublist '']]]'' v)"
      using Inl by simp
    from out calls before first raised answered returned show ?thesis
      by blast
  next
    case (Inr v)
    let ?s' = "s1\<lparr>cache := (cache s1)(SummarizeKey t p d m \<mapsto> v)\<rparr>"
    from Inr body assms(3) have out: "summarize (Suc n) X t p d m s = Some (r, ?s')"
      by (simp add: memoize_defs)
    have same: "api_calls ?s' = api_calls s1" by simp
    have stored: "cache ?s' (SummarizeKey t p d m) = Some v" by simp
    from run Inr have "gpt_summarize_loop X t (target_summary_size p) 0 s = (Inr v, s1)"
      by simp
    from gpt_summarize_loop_returns[OF this] obtain reply rest used where
      reply: "?call (api_calls s1 - 1) = Inr (ChatCompletion (Some reply # rest) (Some used))"
        "v = ''[[['' @ reply @ '']]]''"
      by blast
    have answered: "case used' of
           None \<Rightarrow> r = Inl (Exception AttributeError None)
         | Some k \<Rightarrow>
             (case replies of
                [] \<Rightarrow> r = Inl (Exception IndexError None)
              | None # rest \<Rightarrow> r = Inl (Exception TypeError None)
              | Some reply # rest \<Rightarrow> r = Inr (''[[['' @ reply @ '']]]'')
                  \<and> cache ?s' (SummarizeKey t p d m) = Some (''[[['' @ reply @ '']]]''))"
      if "?call (api_calls s1 - 1) = Inr (ChatCompletion replies used')" for replies used'
      using that reply Inr by simp
    have returned: "\<forall>w. r = Inr w
           \<longrightarrow> (\<exists>reply rest k. ?call (api_calls s1 - 1)
                    = Inr (ChatCompletion (Some reply # rest) (Some k))
                  \<and> w = ''[[['' @ reply @ '']]]''
                  \<and> sublist ''[[['' w \<and> sublist '']]]'' w)"
      using reply Inr markers_present[of reply] by auto
    have raised': "r = Inl e" if "?call (api_calls ?s' - 1) = Inl e" for e
      using raised that by simp
    show ?thesis
      apply (rule exI[of _ r], rule exI[of _ ?s'])
      apply (simp only: same)
      using out calls before first raised answered returned
      apply blast
      done
  qed
qed

theorem summarize_medium_text_witness:
  "target_summary_size sample_parameters < int (text_tokens (sample_externals fails_once) one_sentence)
   \<and> int (text_tokens (sample_externals fails_once) one_sentence) \<le> summary_input_size sample_parameters
   \<and> cache initial_state (SummarizeKey one_sentence sample_parameters ''.'' model_name) = None
   \<and> create (sample_externals fails_once) 0 ''gpt-3.5-turbo-1106''
        (prompt_messages (sample_externals fails_once) one_sentence 10)
        = Inl (Exception RateLimitError None)
   \<and> transient (Exception RateLimitError None)
   \<and> create (sample_externals fails_once) 1 ''gpt-3.5-turbo-1106''
        (prompt_messages (sample_externals fails_once) one_sentence 10)
        = Inr (ChatCompletion [Some ''A summary.''] (Some 50))
   \<and> summarize 1 (sample_externals fails_once) one_sentence sample_parameters ''.'' model_name
        initial_state
      = Some (Inr ''[[[A summary.]]]'',
         \<lparr>actual_tokens = 50,
          cache = [SummarizeKey one_sentence sample_parameters ''.'' model_name \<mapsto> ''[[[A summary.]]]''],
          synthesis_cache = Map.empty, api_calls = 2, sleeps = [3]\<rparr>)
   \<and> api_calls initial_state < 2 \<and> 2 \<le> api_calls initial_state + MAX_ATTEMPTS
   \<and> sublist ''[[['' ''[[[A summary.]]]'' \<and> sublist '']]]'' ''[[[A summary.]]]''"
proof -
  let ?X = "sample_externals fails_once"
  have h1: "target_summary_size sample_parameters < int (text_tokens ?X one_sentence)"
    and h2: "int (text_tokens ?X one_sentence) \<le> summary_input_size sample_parameters"
    and h3: "cache initial_state (SummarizeKey one_sentence sample_parameters ''.'' model_name) = None"
    by (simp_all add: initial_state_def)
  from summarize_medium_text[OF h1 h2 h3, of 0] h1 h2 h3 fails_once_summarize[of 0]
  show ?thesis
    by (auto simp: fails_once_def transient_def caught_def initial_state_def MAX_ATTEMPTS_def)
qed

text \<open>
  Claim C3, amended. When a call of \<^verbatim>\<open>summarize\<close> has returned a value, a second call
  with the same arguments returns the same value from the cache and changes nothing: it
  invokes the model not at all. The two calls together therefore make the invocations of
  the first, which may be more than one.
\<close>

theorem summarize_second_call_cached:
  assumes "summarize n X t p d m s = Some (Inr v, s')"
  shows "summarize (Suc k) X t p d m s' = Some (Inr v, s')"
proof -
  from assms obtain n' where n: "n = Suc n'"
    by (cases n) auto
  have "cache s' (SummarizeKey t p d m) = Some v"
    using assms unfolding n
    by (auto simp: memoize_defs split: option.splits sum.splits prod.splits)
  then show ?thesis
    by (simp add: memoize_defs)
qed

theorem summarize_second_call_cached_witness:
  "summarize 1 (sample_externals fails_once) one_sentence sample_parameters ''.'' model_name
     initial_state =
   Some (Inr ''[[[A summary.]]]'',
     \<lparr>actual_tokens = 50,
      cache = [SummarizeKey one_sentence sample_parameters ''.'' model_name \<mapsto> ''[[[A summary.]]]''],
      synthesis_cache = Map.empty, api_calls = 2, sleeps = [3]\<rparr>)
   \<and> summarize 1 (sample_externals fails_once) one_sentence sample_parameters ''.'' model_name
     \<lparr>actual_tokens = 50,
      cache = [SummarizeKey one_sentence sample_parameters ''.'' model_name \<mapsto> ''[[[A summary.]]]''],
      synthesis_cache = Map.empty, api_calls = 2, sleeps = [3]\<rparr> =
   Some (Inr ''[[[A summary.]]]'',
     \<lparr>actual_tokens = 50,
      cache = [SummarizeKey one_sentence sample_parameters ''.'' model_name \<mapsto> ''[[[A summary.]]]''],
      synthesis_cache = Map.empty, api_calls = 2, sleeps = [3]\<rparr>)"
  using summarize_second_call_cached[OF fails_once_summarize[of 0], of 0] fails_once_summarize[of 0]
  by simp

text \<open>
  Claim C3, as the specification states it, bounds the invocations of the two calls
  together by one. The bound fails: the two calls of the sample make two invocations in
  total, both in the first call (a rate-limited attempt and its retry).
\<close>

theorem summarize_twice_counterexample:
  "api_calls initial_state = 0
   \<and> map_option fst (summarize 1 (sample_externals fails_once) one_sentence sample_parameters ''.''
        model_name initial_state) = Some (Inr ''[[[A summary.]]]'')
   \<and> map_option fst (summarize 1 (sample_externals fails_once) one_sentence sample_parameters ''.''
        model_name (snd (the (summarize 1 (sample_externals fails_once) one_sentence sample_parameters
          ''.'' model_name initial_state)))) = Some (Inr ''[[[A summary.]]]'')
   \<and> map_option (api_calls \<circ> snd) (summarize 1 (sample_externals fails_once) one_sentence
        sample_parameters ''.'' model_name (snd (the (summarize 1 (sample_externals fails_once)
          one_sentence sample_parameters ''.'' model_name initial_state)))) = Some 2"
  using fails_once_summarize[of 0]
  by (simp add: memoize_defs initial_state_def)

text \<open>
  Claim C6, as amended. \<^verbatim>\<open>summarize\<close> terminates, that is, some depth suffices for the
  call to return or raise, for every text and every state, provided that
  \<^item> every reply of the model, between the markers, has at most \<open>target_summary_size\<close>
    tokens,
  \<^item> every section of a text that exceeds both sizes has at most \<open>summary_input_size\<close>
    tokens,
  \<^item> for such a text, summaries of at most \<open>target_summary_size\<close> tokens, one for each
    section, joined by blank lines have fewer tokens than the text, and
  \<^item> the cache holds only values of at most \<open>target_summary_size\<close> tokens.

  A value returned then has at most \<open>target_summary_size\<close> tokens. The code itself
  ensures none of the conditions.
\<close>

theorem summarize_terminates:
  assumes replies: "\<And>i model messages reply rest used.
      create X i model messages = Inr (ChatCompletion (Some reply # rest) used)
      \<Longrightarrow> int (text_tokens X (''[[['' @ reply @ '']]]'')) \<le> target_summary_size p"
    and fit: "\<And>t x. target_summary_size p < int (text_tokens X t)
      \<Longrightarrow> summary_input_size p < int (text_tokens X t)
      \<Longrightarrow> x \<in> set (sections X t (summary_input_size p) d m)
      \<Longrightarrow> int (text_tokens X x) \<le> summary_input_size p"
    and shrink: "\<And>t ys. target_summary_size p < int (text_tokens X t)
      \<Longrightarrow> summary_input_size p < int (text_tokens X t)
      \<Longrightarrow> length ys = length (sections X t (summary_input_size p) d m)
      \<Longrightarrow> \<forall>y\<in>set ys. int (text_tokens X y) \<le> target_summary_size p
      \<Longrightarrow> text_tokens X (join (newline @ newline) ys) < text_tokens X t"
    and cached: "cache_within X p d m s"
  shows "\<exists>n r s'. summarize n X t p d m s = Some (r, s')
     \<and> (\<forall>v. r = Inr v \<longrightarrow> int (text_tokens X v) \<le> target_summary_size p)"
proof -
  have "\<exists>n r. summarize n X t p d m s = Some r" if "cache_within X p d m s" for s
    using that
  proof (induction t arbitrary: s rule: measure_induct_rule[where f = "text_tokens X"])
    case (less t)
    show ?case
    proof (cases "int (text_tokens X t) \<le> target_summary_size p
        \<or> int (text_tokens X t) \<le> summary_input_size p")
      case True
      from summarize_terminal[OF this] show ?thesis by blast
    next
      case False
      then have big: "target_summary_size p < int (text_tokens X t)"
        "summary_input_size p < int (text_tokens X t)"
        by simp_all
      let ?segs = "sections X t (summary_input_size p) d m"
      have "\<forall>x\<in>set ?segs. int (text_tokens X x) \<le> target_summary_size p
          \<or> int (text_tokens X x) \<le> summary_input_size p"
        using fit[OF big] by blast
      from summarize_each_terminal[OF this, of 0 d m s] obtain r1 s1 where
        each: "summarize_each (\<lambda>x. summarize (Suc 0) X x p d m) ?segs s = Some (r1, s1)"
        by fastforce
      have within1: "cache_within X p d m s1 \<and> (\<forall>ys. r1 = Inr ys \<longrightarrow> length ys = length ?segs
          \<and> (\<forall>y\<in>set ys. int (text_tokens X y) \<le> target_summary_size p))"
        by (rule summarize_each_within[OF _ less.prems each])
          (rule summarize_within[OF replies], assumption+)
      show ?thesis
      proof (cases r1)
        case (Inl e)
        have "summarize_body X (summarize (Suc 0) X) t p d m s = Some (Inl e, s1)"
          using False each Inl by (simp add: summarize_body_def del: summarize.simps)
        then have "\<exists>r. summarize (Suc (Suc 0)) X t p d m s = Some r"
          by (cases "cache s (SummarizeKey t p d m)") (simp_all add: memoize_defs del: summarize.simps(2)
              add: summarize.simps(2)[of "Suc 0"])
        then show ?thesis by blast
      next
        case (Inr ys)
        with within1 have ys: "length ys = length ?segs"
          "\<forall>y\<in>set ys. int (text_tokens X y) \<le> target_summary_size p"
          and s1: "cache_within X p d m s1"
          by simp_all
        from shrink[OF big ys]
        have "text_tokens X (join (newline @ newline) ys) < text_tokens X t" .
        from less.IH[OF this s1] obtain n2 r2 where
          again: "summarize n2 X (join (newline @ newline) ys) p d m s1 = Some r2"
          by blast
        let ?N = "max (Suc 0) n2"
        have each': "summarize_each (\<lambda>x. summarize ?N X x p d m) ?segs s = Some (Inr ys, s1)"
          using each Inr
          by (auto intro!: summarize_each_mono[where f = "\<lambda>x. summarize (Suc 0) X x p d m"]
              intro: summarize_mono simp del: summarize.simps)
        have again': "summarize ?N X (join (newline @ newline) ys) p d m s1 = Some r2"
          by (rule summarize_mono[OF again]) simp
        have "summarize_body X (summarize ?N X) t p d m s = Some r2"
          using False each' again' by (simp add: summarize_body_def del: summarize.simps)
        then have "\<exists>r. summarize (Suc ?N) X t p d m s = Some r"
          by (cases "cache s (SummarizeKey t p d m)"; cases r2; cases "fst r2")
            (simp_all add: memoize_defs)
        then show ?thesis by blast
      qed
    qed
  qed
  from this[OF cached] obtain n r s' where run: "summarize n X t p d m s = Some (r, s')"
    by fastforce
  have "cache_within X p d m s' \<and> (\<forall>v. r = Inr v \<longrightarrow> int (text_tokens X v) \<le> target_summary_size p)"
    by (rule summarize_within[OF _ cached run]) (rule replies)
  with run show ?thesis
    by blast
qed

theorem summarize_terminates_witness:
  "cache_within (sample_externals terse) roomy_parameters ''.'' model_name initial_state
   \<and> (\<exists>n r s'. summarize n (sample_externals terse) long_text roomy_parameters ''.'' model_name
          initial_state = Some (r, s')
        \<and> (\<forall>v. r = Inr v \<longrightarrow> int (text_tokens (sample_externals terse) v)
               \<le> target_summary_size roomy_parameters))
   \<and> summary_input_size roomy_parameters < int (text_tokens (sample_externals terse) long_text)
   \<and> map_option fst (summarize 3 (sample_externals terse) long_text roomy_parameters ''.'' model_name
        initial_state) = Some (Inr ''[[[ok]]]'')"
proof -
  let ?X = "sample_externals terse"
  have "\<exists>n r s'. summarize n ?X long_text roomy_parameters ''.'' model_name initial_state = Some (r, s')
        \<and> (\<forall>v. r = Inr v \<longrightarrow> int (text_tokens ?X v) \<le> target_summary_size roomy_parameters)"
  proof (rule summarize_terminates)
    fix i model messages reply rest used
    assume "create ?X i model messages = Inr (ChatCompletion (Some reply # rest) used)"
    then show "int (text_tokens ?X (''[[['' @ reply @ '']]]''))
        \<le> target_summary_size roomy_parameters"
      by (rule terse_replies)
  next
    fix t x
    assume "x \<in> set (sections ?X t (summary_input_size roomy_parameters) ''.'' model_name)"
    then show "int (text_tokens ?X x) \<le> summary_input_size roomy_parameters"
      by (rule roomy_sections_fit)
  next
    fix t ys
    assume "summary_input_size roomy_parameters < int (text_tokens ?X t)"
      and "length ys = length (sections ?X t (summary_input_size roomy_parameters) ''.'' model_name)"
      and "\<forall>y\<in>set ys. int (text_tokens ?X y) \<le> target_summary_size roomy_parameters"
    then show "text_tokens ?X (join (newline @ newline) ys) < text_tokens ?X t"
      by (rule roomy_join_shrinks)
  next
    show "cache_within ?X roomy_parameters ''.'' model_name initial_state"
      by (rule cache_within_initial_state)
  qed
  moreover have "summary_input_size roomy_parameters < int (text_tokens ?X long_text)"
    by (simp add: long_text_def)
  ultimately show ?thesis
    using cache_within_initial_state terse_run by simp
qed

text \<open>
  The claim as first stated fails: with the sample parameters (target 10, input 20, a
  token for each character) and a provider whose every reply is longer than the input
  size, a text of two sentences never comes back, whatever the depth allowed. The
  joined summaries are never shorter than the text, and the third branch is taken again
  and again.
\<close>

theorem summarize_not_terminating:
  "\<not> (\<exists>n r. summarize n (sample_externals verbose) two_sentences
          sample_parameters ''.'' model_name initial_state = Some r)"
proof
  assume "\<exists>n r. summarize n (sample_externals verbose) two_sentences
          sample_parameters ''.'' model_name initial_state = Some r"
  then obtain n r s' where run: "summarize n (sample_externals verbose) two_sentences
          sample_parameters ''.'' model_name initial_state = Some (r, s')"
    by auto
  have "never_shorter ''.'' model_name initial_state"
    by (simp add: never_shorter_def initial_state_def)
  from verbose_summarize_never_shorter[OF this run] show False
    by (simp add: two_sentences_def)
qed

subsection \<open>Claims about the other functions\<close>

lemma synthesis_sample_tokens:
  "message_tokens (sample_externals api) (synthesis_messages [''a'', ''b'']) model = 294"
  by (simp add: synthesis_messages_def newline_def strip_def is_space_def str_nat.simps)

text \<open>
  Claim C8, as the specification states it, has exactly one invocation of the model
  whenever the rendered prompt is within 8192 tokens. That fails for a call answered
  from the cache: the decorator looks the call up before the body runs. In the sample
  the prompt has 294 tokens; the first call invokes the model once and the second call,
  with the same arguments, not at all.
\<close>

theorem synthesize_summaries_counterexample:
  "message_tokens (sample_externals verbose) (synthesis_messages [''a'', ''b'']) model_name \<le> 8192
   \<and> synthesize_summaries (sample_externals verbose) [''a'', ''b''] ''gpt-4'' initial_state
       = Some (Inr (Some ''The book is long.''),
           initial_state\<lparr>api_calls := 1,
             synthesis_cache := [SynthesizeKey [''a'', ''b''] ''gpt-4'' \<mapsto> Some ''The book is long.'']\<rparr>)
   \<and> synthesize_summaries (sample_externals verbose) [''a'', ''b''] ''gpt-4''
        (initial_state\<lparr>api_calls := 1,
             synthesis_cache := [SynthesizeKey [''a'', ''b''] ''gpt-4'' \<mapsto> Some ''The book is long.'']\<rparr>)
       = Some (Inr (Some ''The book is long.''),
           initial_state\<lparr>api_calls := 1,
             synthesis_cache := [SynthesizeKey [''a'', ''b''] ''gpt-4'' \<mapsto> Some ''The book is long.'']\<rparr>)"
  using synthesis_sample_tokens[of verbose model_name]
  by (simp add: synthesize_summaries_def synthesize_summaries_body_def memoize_defs verbose_def
      initial_state_def)

text \<open>
  Claim C8, amended. A call of \<^verbatim>\<open>synthesize_summaries\<close> that the cache answers returns
  the cached value in an unchanged state: nothing is asserted and the model is not
  invoked. Otherwise the body checks the size of the rendered prompt first: above 8192
  tokens it raises \<^verbatim>\<open>AssertionError\<close> in an unchanged state, so no invocation is made
  and nothing is stored; within the bound it invokes the model exactly once, with no
  retry and no sleep, and raises the exception of that invocation, or returns the
  content of the first choice of its completion, which is then stored in the cache, or
  raises \<^verbatim>\<open>IndexError\<close> when the completion has no choice. The counter
  \<open>actual_tokens\<close> and the cache of \<^verbatim>\<open>summarize\<close> are not written.
\<close>

theorem synthesize_summaries_precondition:
  "(\<forall>v. synthesis_cache s (SynthesizeKey summaries model) = Some v
       \<longrightarrow> synthesize_summaries X summaries model s = Some (Inr v, s))
   \<and> (synthesis_cache s (SynthesizeKey summaries model) = None
       \<longrightarrow> (8192 < message_tokens X (synthesis_messages summaries) model_name
              \<longrightarrow> synthesize_summaries X summaries model s
                    = Some (Inl (Exception AssertionError None), s))
          \<and> (message_tokens X (synthesis_messages summaries) model_name \<le> 8192
              \<longrightarrow> (\<exists>r s'. synthesize_summaries X summaries model s = Some (r, s')
                     \<and> api_calls s' = api_calls s + 1
                     \<and> actual_tokens s' = actual_tokens s \<and> sleeps s' = sleeps s
                     \<and> cache s' = cache s
                     \<and> (case create X (api_calls s) model (synthesis_messages summaries) of
                          Inl e \<Rightarrow> r = Inl e \<and> synthesis_cache s' = synthesis_cache s
                        | Inr c \<Rightarrow>
                            (case choices c of
                               [] \<Rightarrow> r = Inl (Exception IndexError None)
                                      \<and> synthesis_cache s' = synthesis_cache s
                             | reply # rest \<Rightarrow> r = Inr reply
                                      \<and> synthesis_cache s'
                                          = (synthesis_cache s)(SynthesizeKey summaries model \<mapsto> reply))))))"
  by (auto simp: synthesize_summaries_def synthesize_summaries_body_def memoize_defs
      split: sum.splits list.splits)

theorem synthesize_summaries_precondition_witness:
  "synthesis_cache initial_state (SynthesizeKey [''a'', ''b''] ''gpt-4'') = None
   \<and> message_tokens (sample_externals verbose) (synthesis_messages [''a'', ''b'']) model_name \<le> 8192
   \<and> create (sample_externals verbose) (api_calls initial_state) ''gpt-4''
        (synthesis_messages [''a'', ''b'']) = Inr (ChatCompletion [Some ''The book is long.''] (Some 40))
   \<and> map_option fst (synthesize_summaries (sample_externals verbose) [''a'', ''b''] ''gpt-4'' initial_state)
       = Some (Inr (Some ''The book is long.''))
   \<and> map_option (api_calls \<circ> snd)
        (synthesize_summaries (sample_externals verbose) [''a'', ''b''] ''gpt-4'' initial_state)
       = Some (api_calls initial_state + 1)
   \<and> 8192 < message_tokens (sample_externals verbose\<lparr>message_tokens := \<lambda>messages model. 9000\<rparr>)
        (synthesis_messages [''a'', ''b'']) model_name
   \<and> synthesize_summaries (sample_externals verbose\<lparr>message_tokens := \<lambda>messages model. 9000\<rparr>)
        [''a'', ''b''] ''gpt-4'' initial_state
       = Some (Inl (Exception AssertionError None), initial_state)
   \<and> synthesis_cache (initial_state\<lparr>synthesis_cache := [SynthesizeKey [''a'', ''b''] ''gpt-4'' \<mapsto> None]\<rparr>)
        (SynthesizeKey [''a'', ''b''] ''gpt-4'') = Some None
   \<and> synthesize_summaries (sample_externals verbose) [''a'', ''b''] ''gpt-4''
        (initial_state\<lparr>synthesis_cache := [SynthesizeKey [''a'', ''b''] ''gpt-4'' \<mapsto> None]\<rparr>)
       = Some (Inr None,
           initial_state\<lparr>synthesis_cache := [SynthesizeKey [''a'', ''b''] ''gpt-4'' \<mapsto> None]\<rparr>)"
proof -
  let ?Y = "sample_externals verbose\<lparr>message_tokens := \<lambda>messages model. 9000\<rparr>"
  let ?s = "initial_state\<lparr>synthesis_cache := [SynthesizeKey [''a'', ''b''] ''gpt-4'' \<mapsto> None]\<rparr>"
  have h: "synthesis_cache initial_state (SynthesizeKey [''a'', ''b''] ''gpt-4'') = None"
    by (simp add: initial_state_def)
  have hit: "synthesis_cache ?s (SynthesizeKey [''a'', ''b''] ''gpt-4'') = Some None"
    by simp
  have small: "message_tokens (sample_externals verbose) (synthesis_messages [''a'', ''b'']) model_name \<le> 8192"
    using synthesis_sample_tokens[of verbose model_name] by simp
  have large: "8192 < message_tokens ?Y (synthesis_messages [''a'', ''b'']) model_name"
    by simp
  from synthesize_summaries_precondition[of initial_state "[''a'', ''b'']" "''gpt-4''" "sample_externals verbose"]
    synthesize_summaries_precondition[of initial_state "[''a'', ''b'']" "''gpt-4''" ?Y]
    synthesize_summaries_precondition[of ?s "[''a'', ''b'']" "''gpt-4''" "sample_externals verbose"]
    h hit small large
  show ?thesis
    by (auto simp: verbose_def)
qed

text \<open>
  Claim C1, as amended. \<^verbatim>\<open>summarization_token_parameters\<close> has no check of its result:
  for all arguments it returns the parameters with
  \<open>summary_input_size = model_context_size - (base_prompt_size + target_summary_size)\<close>,
  also when this number is zero or negative.
\<close>

theorem summarization_token_parameters_returns:
  "summarization_token_parameters X tss model_context_size =
     Inr \<lparr>target_summary_size = tss,
          summary_input_size = model_context_size
             - (int (message_tokens X (prompt_messages X [] tss) model_name) + tss)\<rparr>"
  by (simp add: summarization_token_parameters_def)

theorem summarization_token_parameters_returns_witness:
  "summarization_token_parameters (sample_externals verbose) 1000 16000 =
     Inr \<lparr>target_summary_size = 1000, summary_input_size = 14989\<rparr>"
  using summarization_token_parameters_returns[of "sample_externals verbose" 1000 16000]
  by simp

text \<open>
  The claim as first stated fails: with a context of 500 tokens and a target of 1000 the
  function returns parameters with the input size \<open>- 511\<close>.
\<close>

theorem summarization_token_parameters_counterexample:
  "500 - (int (message_tokens (sample_externals verbose)
       (prompt_messages (sample_externals verbose) [] 1000) model_name) + 1000) \<le> 0
   \<and> summarization_token_parameters (sample_externals verbose) 1000 500 =
       Inr \<lparr>target_summary_size = 1000, summary_input_size = - 511\<rparr>"
  by (simp add: summarization_token_parameters_def)

text \<open>
  Claim C7. For a text of more than \<open>summary_input_size\<close> tokens, the sections that the
  splitter returns, concatenated in order, are the text: every boundary stays at the end
  of the section it closes and nothing is dropped. (The same holds for every text.)
\<close>

theorem split_text_into_sections_lossless:
  assumes "summary_input_size p < int (tok t)"
  shows "concat (split_text_into_sections tok t (summary_input_size p) point model) = t"
  by (rule concat_split_text_into_sections)

theorem split_text_into_sections_lossless_witness:
  "summary_input_size sample_parameters < int (length two_sentences)
   \<and> split_text_into_sections length two_sentences (summary_input_size sample_parameters) ''.'' model_name
     = [''It was a dark night.'', '' It rained.'']
   \<and> concat [''It was a dark night.'', '' It rained.''] = two_sentences"
proof -
  have h: "summary_input_size sample_parameters < int (length two_sentences)"
    by simp
  from split_text_into_sections_lossless[of sample_parameters length two_sentences "''.''" model_name]
    h two_sentences_sections
  show ?thesis by simp
qed

end
